theory Spec2Isabelle
  imports Main "HOL-Library.Word"
begin

unbundle bit_operations_syntax

section \<open>Bytes, strings and big-endian integers\<close>

text \<open>
  Go's \<open>[]byte\<close> and \<open>string\<close> are both sequences of bytes; \<open>int16\<close> and \<open>int32\<close> are
  words whose signed reading is \<open>sint\<close>; Go's \<open>int\<close> (64 bits on the supported platforms)
  only ever holds values derived from an \<open>int32\<close> or from a length here and is an \<open>int\<close>.
\<close>

type_synonym byte = "8 word"
type_synonym bytes = "byte list"

definition str :: "string \<Rightarrow> bytes" where
  "str s = map of_char s"

text \<open>\<open>binary.BigEndian.PutUint16/PutUint32\<close> and \<open>Uint16/Uint32\<close>.\<close>

definition be16 :: "16 word \<Rightarrow> bytes" where
  "be16 w = [ucast (drop_bit 8 w), ucast w]"

definition be32 :: "32 word \<Rightarrow> bytes" where
  "be32 w = [ucast (drop_bit 24 w), ucast (drop_bit 16 w), ucast (drop_bit 8 w), ucast w]"

fun Uint16 :: "bytes \<Rightarrow> 16 word" where
  "Uint16 (b0 # b1 # _) = ucast b1 OR push_bit 8 (ucast b0)"
| "Uint16 _ = 0"

fun Uint32 :: "bytes \<Rightarrow> 32 word" where
  "Uint32 (b0 # b1 # b2 # b3 # _) =
     ucast b3 OR push_bit 8 (ucast b2) OR push_bit 16 (ucast b1) OR push_bit 24 (ucast b0)"
| "Uint32 _ = 0"

section \<open>Message tags and authentication codes\<close>

definition commandCompleteMsg :: byte where "commandCompleteMsg = 0x43"
definition errorResponseMsg :: byte where "errorResponseMsg = 0x45"
definition noticeResponseMsg :: byte where "noticeResponseMsg = 0x4E"
definition parameterStatusMsg :: byte where "parameterStatusMsg = 0x53"
definition authenticationOKMsg :: byte where "authenticationOKMsg = 0x52"
definition noDataMsg :: byte where "noDataMsg = 0x6E"
definition passwordMessageMsg :: byte where "passwordMessageMsg = 0x70"
definition saslInitialResponseMsg :: byte where "saslInitialResponseMsg = 0x70"
definition authenticationSASLContinueMsg :: byte where "authenticationSASLContinueMsg = 0x52"
definition saslResponseMsg :: byte where "saslResponseMsg = 0x70"
definition authenticationSASLFinalMsg :: byte where "authenticationSASLFinalMsg = 0x52"
definition parameterDescriptionMsg :: byte where "parameterDescriptionMsg = 0x74"
definition readyForQueryMsg :: byte where "readyForQueryMsg = 0x5A"
definition rowDescriptionMsg :: byte where "rowDescriptionMsg = 0x54"
definition dataRowMsg :: byte where "dataRowMsg = 0x44"
definition parseCompleteMsg :: byte where "parseCompleteMsg = 0x31"
definition bindMsg :: byte where "bindMsg = 0x42"
definition bindCompleteMsg :: byte where "bindCompleteMsg = 0x32"
definition executeMsg :: byte where "executeMsg = 0x45"
definition syncMsg :: byte where "syncMsg = 0x53"
definition copyDataMsg :: byte where "copyDataMsg = 0x64"
definition copyDoneMsg :: byte where "copyDoneMsg = 0x63"

definition authenticationOK :: "32 word" where "authenticationOK = 0"
definition authenticationCleartextPassword :: "32 word" where "authenticationCleartextPassword = 3"
definition authenticationMD5Password :: "32 word" where "authenticationMD5Password = 5"
definition authenticationSASL :: "32 word" where "authenticationSASL = 10"

lemmas msg_tags =
  commandCompleteMsg_def errorResponseMsg_def noticeResponseMsg_def parameterStatusMsg_def
  authenticationOKMsg_def noDataMsg_def passwordMessageMsg_def saslInitialResponseMsg_def
  authenticationSASLContinueMsg_def saslResponseMsg_def authenticationSASLFinalMsg_def
  parameterDescriptionMsg_def readyForQueryMsg_def rowDescriptionMsg_def dataRowMsg_def
  parseCompleteMsg_def bindMsg_def bindCompleteMsg_def executeMsg_def syncMsg_def
  copyDataMsg_def copyDoneMsg_def

lemmas auth_codes =
  authenticationOK_def authenticationCleartextPassword_def authenticationMD5Password_def
  authenticationSASL_def

section \<open>Errors, results and the connection\<close>

text \<open>
  Every error value the engine can return. The \<open>fmt.Errorf\<close> diagnostics are constructors
  carrying what the format string prints; \<open>ServerError\<close> is \<open>internal.NewPGError(m)\<close> with
  the field map \<open>m\<close>; errors produced by the column scanner and by the SASL negotiator are
  opaque to the engine and carry their cause; \<open>Panic\<close> is a Go run-time panic.
\<close>

datatype error =
    IoError
  | SslNotSupported
  | ServerError "byte \<rightharpoonup> bytes"
  | UnexpectedMessage string byte
  | UnexpectedAuthCode "32 word"
  | UnknownPasswordResponse byte
  | UnknownAuthCode "32 word"
  | UnsupportedSaslMechanism bytes
  | SaslUnexpected byte
  | SaslBadState
  | SaslError string
  | ScanError string
  | Panic string

text \<open>
  Modelled from the spec: \<open>types.Result\<close> and \<open>types.NewResult\<close> are not part of the
  source file. A result is the server's command tag plus the row count handed over by the
  reader.
\<close>

record Result =
  tag :: bytes
  returned :: int

definition NewResult :: "bytes \<Rightarrow> int \<Rightarrow> Result" where
  "NewResult b rows = \<lparr>tag = b, returned = rows\<rparr>"

text \<open>
  Modelled from the spec: \<open>pool.WriteBuffer\<close> is not part of the source file. The buffer
  accumulates messages; \<open>StartMessage\<close> records the offset of the length field and writes
  a placeholder, \<open>FinishMessage\<close> back-patches it with the payload length plus four;
  \<open>StartParam\<close>, \<open>FinishParam\<close> and \<open>FinishNullParam\<close> do the same for one parameter.
\<close>

record WriteBuffer =
  Bytes :: bytes
  msgStart :: nat
  paramStart :: nat

definition PutUint32 :: "bytes \<Rightarrow> nat \<Rightarrow> 32 word \<Rightarrow> bytes" where
  "PutUint32 bs off w = take off bs @ be32 w @ drop (off + 4) bs"

definition StartMessage :: "byte \<Rightarrow> WriteBuffer \<Rightarrow> WriteBuffer" where
  "StartMessage c buf =
     (if c = 0
      then buf\<lparr>msgStart := length (Bytes buf), Bytes := Bytes buf @ [0, 0, 0, 0]\<rparr>
      else buf\<lparr>msgStart := length (Bytes buf) + 1, Bytes := Bytes buf @ [c, 0, 0, 0, 0]\<rparr>)"

definition FinishMessage :: "WriteBuffer \<Rightarrow> WriteBuffer" where
  "FinishMessage buf =
     buf\<lparr>Bytes := PutUint32 (Bytes buf) (msgStart buf)
                     (word_of_nat (length (Bytes buf) - msgStart buf))\<rparr>"

definition StartParam :: "WriteBuffer \<Rightarrow> WriteBuffer" where
  "StartParam buf = buf\<lparr>paramStart := length (Bytes buf), Bytes := Bytes buf @ [0, 0, 0, 0]\<rparr>"

definition FinishParam :: "WriteBuffer \<Rightarrow> WriteBuffer" where
  "FinishParam buf =
     buf\<lparr>Bytes := PutUint32 (Bytes buf) (paramStart buf)
                     (word_of_nat (length (Bytes buf) - paramStart buf - 4))\<rparr>"

definition FinishNullParam :: "WriteBuffer \<Rightarrow> WriteBuffer" where
  "FinishNullParam buf = buf\<lparr>Bytes := PutUint32 (Bytes buf) (paramStart buf) (- 1)\<rparr>"

definition WriteByte :: "byte \<Rightarrow> WriteBuffer \<Rightarrow> WriteBuffer" where
  "WriteByte c buf = buf\<lparr>Bytes := Bytes buf @ [c]\<rparr>"

definition WriteInt16 :: "16 word \<Rightarrow> WriteBuffer \<Rightarrow> WriteBuffer" where
  "WriteInt16 num buf = buf\<lparr>Bytes := Bytes buf @ be16 num\<rparr>"

definition WriteInt32 :: "32 word \<Rightarrow> WriteBuffer \<Rightarrow> WriteBuffer" where
  "WriteInt32 num buf = buf\<lparr>Bytes := Bytes buf @ be32 num\<rparr>"

definition WriteString :: "bytes \<Rightarrow> WriteBuffer \<Rightarrow> WriteBuffer" where
  "WriteString s buf = buf\<lparr>Bytes := Bytes buf @ s @ [0]\<rparr>"

definition Write :: "bytes \<Rightarrow> WriteBuffer \<Rightarrow> WriteBuffer" where
  "Write b buf = buf\<lparr>Bytes := Bytes buf @ b\<rparr>"

text \<open>
  Modelled from the spec: \<open>pool.Conn\<close> is not part of the source file. The connection is
  the duplex byte stream: \<open>Rd\<close> holds the bytes the server has sent and the engine has not
  read yet, \<open>Sent\<close> the bytes flushed to the server so far, \<open>WriteFails\<close> says that the
  next write to the network fails, \<open>Tls\<close> that the stream has been swapped for a TLS one.
\<close>

record Conn =
  Rd :: bytes
  Wr :: WriteBuffer
  Sent :: bytes
  WriteFails :: bool
  Tls :: bool
  RemoteAddr :: bytes

text \<open>
  Modelled from the spec: \<open>cn.FlushWriter()\<close> hands the buffer to the network and
  resets it.
\<close>

definition FlushWriter :: "Conn \<Rightarrow> error option \<times> Conn" where
  "FlushWriter cn =
     (if WriteFails cn then (Some IoError, cn\<lparr>Wr := (Wr cn)\<lparr>Bytes := []\<rparr>\<rparr>)
      else (None, cn\<lparr>Sent := Sent cn @ Bytes (Wr cn), Wr := (Wr cn)\<lparr>Bytes := []\<rparr>\<rparr>))"

text \<open>
  Modelled from the spec: \<open>cn.ReadN(n)\<close> returns exactly \<open>n\<close> bytes, or an I/O error
  when the stream ends first. The spec is silent on a negative \<open>n\<close>; Go has no slice of
  negative length, and the model panics there.
\<close>

definition ReadN :: "int \<Rightarrow> Conn \<Rightarrow> (error + bytes) \<times> Conn" where
  "ReadN n cn =
     (if n < 0 then (Inl (Panic ''slice bounds out of range''), cn)
      else if nat n \<le> length (Rd cn)
      then (Inr (take (nat n) (Rd cn)), cn\<lparr>Rd := drop (nat n) (Rd cn)\<rparr>)
      else (Inl IoError, cn\<lparr>Rd := []\<rparr>))"

text \<open>\<open>cn.Rd.ReadByte()\<close> of the buffered reader: the next byte, or an I/O error.\<close>

definition ReadByte :: "Conn \<Rightarrow> (error + byte) \<times> Conn" where
  "ReadByte cn =
     (case Rd cn of
        [] \<Rightarrow> (Inl IoError, cn)
      | c # rest \<Rightarrow> (Inr c, cn\<lparr>Rd := rest\<rparr>))"

section \<open>Read primitives of the source file\<close>

definition readInt16 :: "Conn \<Rightarrow> (error + 16 word) \<times> Conn" where
  "readInt16 cn =
     (case ReadN 2 cn of
        (Inl err, cn1) \<Rightarrow> (Inl err, cn1)
      | (Inr b, cn1) \<Rightarrow> (Inr (Uint16 b), cn1))"

definition readInt32 :: "Conn \<Rightarrow> (error + 32 word) \<times> Conn" where
  "readInt32 cn =
     (case ReadN 4 cn of
        (Inl err, cn1) \<Rightarrow> (Inl err, cn1)
      | (Inr b, cn1) \<Rightarrow> (Inr (Uint32 b), cn1))"

text \<open>
  \<open>readString\<close>: \<open>cn.Rd.ReadString(0)\<close> reads up to and including the first NUL, and the
  NUL is cut off; without a NUL the stream is read to its end and the read fails.
\<close>

definition readString :: "Conn \<Rightarrow> (error + bytes) \<times> Conn" where
  "readString cn =
     (if 0 \<in> set (Rd cn)
      then (Inr (takeWhile (\<lambda>c. c \<noteq> 0) (Rd cn)),
            cn\<lparr>Rd := tl (dropWhile (\<lambda>c. c \<noteq> 0) (Rd cn))\<rparr>)
      else (Inl IoError, cn\<lparr>Rd := []\<rparr>))"

text \<open>
  \<open>readBytes\<close>: the same read through \<open>ReadSlice\<close>, appended to \<open>b\<close>; the loop over
  \<open>bufio.ErrBufferFull\<close> only joins the pieces of a name longer than the read buffer.
\<close>

definition readBytes :: "Conn \<Rightarrow> bytes \<Rightarrow> (error + bytes) \<times> Conn" where
  "readBytes cn b =
     (if 0 \<in> set (Rd cn)
      then (Inr (b @ takeWhile (\<lambda>c. c \<noteq> 0) (Rd cn)),
            cn\<lparr>Rd := tl (dropWhile (\<lambda>c. c \<noteq> 0) (Rd cn))\<rparr>)
      else (Inl IoError, cn\<lparr>Rd := []\<rparr>))"

definition readMessageType :: "Conn \<Rightarrow> (error + byte \<times> int) \<times> Conn" where
  "readMessageType cn =
     (case ReadByte cn of
        (Inl err, cn1) \<Rightarrow> (Inl err, cn1)
      | (Inr c, cn1) \<Rightarrow>
          (case readInt32 cn1 of
             (Inl err, cn2) \<Rightarrow> (Inl err, cn2)
           | (Inr l, cn2) \<Rightarrow> (Inr (c, sint l - 4), cn2)))"

definition logNotice :: "Conn \<Rightarrow> int \<Rightarrow> error option \<times> Conn" where
  "logNotice cn msgLen =
     (case ReadN msgLen cn of
        (Inl err, cn1) \<Rightarrow> (Some err, cn1)
      | (Inr _, cn1) \<Rightarrow> (None, cn1))"

definition logParameterStatus :: "Conn \<Rightarrow> int \<Rightarrow> error option \<times> Conn" where
  "logParameterStatus cn msgLen =
     (case ReadN msgLen cn of
        (Inl err, cn1) \<Rightarrow> (Some err, cn1)
      | (Inr _, cn1) \<Rightarrow> (None, cn1))"

lemma ReadN_length: "ReadN n cn = (r, cn1) \<Longrightarrow> length (Rd cn1) \<le> length (Rd cn)"
  by (auto simp: ReadN_def split: if_splits)

lemma ReadByte_length:
  "ReadByte cn = (Inr c, cn1) \<Longrightarrow> length (Rd cn1) < length (Rd cn)"
  by (auto simp: ReadByte_def split: list.splits)

lemma readInt32_length: "readInt32 cn = (r, cn1) \<Longrightarrow> length (Rd cn1) \<le> length (Rd cn)"
  by (auto simp: readInt32_def split: prod.splits sum.splits dest: ReadN_length)

lemma readString_length:
  "readString cn = (r, cn1) \<Longrightarrow> length (Rd cn1) \<le> length (Rd cn)"
  by (auto simp: readString_def split: if_splits
      intro: order_trans [OF diff_le_self length_dropWhile_le])

lemma readMessageType_length:
  "readMessageType cn = (Inr x, cn1) \<Longrightarrow> length (Rd cn1) < length (Rd cn)"
  by (auto simp: readMessageType_def split: prod.splits sum.splits
      dest!: ReadByte_length readInt32_length)

lemma logNotice_length: "logNotice cn n = (r, cn1) \<Longrightarrow> length (Rd cn1) \<le> length (Rd cn)"
  by (auto simp: logNotice_def split: prod.splits sum.splits dest: ReadN_length)

lemma logParameterStatus_length:
  "logParameterStatus cn n = (r, cn1) \<Longrightarrow> length (Rd cn1) \<le> length (Rd cn)"
  by (auto simp: logParameterStatus_def split: prod.splits sum.splits dest: ReadN_length)


section \<open>ErrorResponse\<close>

text \<open>
  \<open>readError\<close>: the field map starts with the remote address under \<open>'a'\<close>; every field
  is a code byte and a NUL-terminated string, and a zero code byte ends the list. The
  message length is not used.
\<close>

function readError_loop :: "Conn \<Rightarrow> (byte \<rightharpoonup> bytes) \<Rightarrow> (error + (byte \<rightharpoonup> bytes)) \<times> Conn" where
  "readError_loop cn m =
     (case ReadByte cn of
        (Inl err, cn1) \<Rightarrow> (Inl err, cn1)
      | (Inr c, cn1) \<Rightarrow>
          if c = 0 then (Inr m, cn1)
          else (case readString cn1 of
                  (Inl err, cn2) \<Rightarrow> (Inl err, cn2)
                | (Inr s, cn2) \<Rightarrow> readError_loop cn2 (m(c \<mapsto> s))))"
  by pat_completeness auto
termination
  by (relation "measure (\<lambda>(cn, m). length (Rd cn))")
    (auto dest!: ReadByte_length readString_length sym [of "(_, _)"])

declare readError_loop.simps [simp del]

text \<open>The first component is the parsed server error, or the read failure.\<close>

definition readError :: "Conn \<Rightarrow> (error + error) \<times> Conn" where
  "readError cn =
     (case readError_loop cn [0x61 \<mapsto> RemoteAddr cn] of
        (Inl err, cn1) \<Rightarrow> (Inl err, cn1)
      | (Inr m, cn1) \<Rightarrow> (Inr (ServerError m), cn1))"

lemma readError_loop_length:
  "readError_loop cn m = (r, cn1) \<Longrightarrow> length (Rd cn1) \<le> length (Rd cn)"
proof (induction cn m rule: readError_loop.induct)
  case (1 cn m)
  show ?case
  proof (cases "ReadByte cn")
    case (Pair a cn')
    show ?thesis
    proof (cases a)
      case (Inl e)
      with Pair "1.prems" show ?thesis
        by (auto simp: readError_loop.simps [of cn] ReadByte_def split: list.splits)
    next
      case (Inr c)
      with Pair have lt: "length (Rd cn') < length (Rd cn)"
        by (auto dest: ReadByte_length)
      show ?thesis
      proof (cases "c = 0")
        case True
        with Pair Inr "1.prems" lt show ?thesis
          by (simp add: readError_loop.simps [of cn])
      next
        case False
        show ?thesis
        proof (cases "readString cn'")
          case (Pair b cn'')
          then have le: "length (Rd cn'') \<le> length (Rd cn')"
            by (rule readString_length)
          show ?thesis
          proof (cases b)
            case (Inl e)
            with Pair \<open>ReadByte cn = (a, cn')\<close> \<open>a = Inr c\<close> False "1.prems" lt le
            show ?thesis
              by (simp add: readError_loop.simps [of cn])
          next
            case (Inr s)
            with Pair \<open>ReadByte cn = (a, cn')\<close> \<open>a = Inr c\<close> False "1.prems"
            have "readError_loop cn'' (m(c \<mapsto> s)) = (r, cn1)"
              by (simp add: readError_loop.simps [of cn])
            with "1.IH" [OF \<open>ReadByte cn = (a, cn')\<close> [symmetric] \<open>a = Inr c\<close> False
                Pair [symmetric] Inr]
            have "length (Rd cn1) \<le> length (Rd cn'')" by blast
            with lt le show ?thesis by simp
          qed
        qed
      qed
    qed
  qed
qed

lemma readError_length:
  "readError cn = (r, cn1) \<Longrightarrow> length (Rd cn1) \<le> length (Rd cn)"
  by (auto simp: readError_def split: prod.splits sum.splits dest: readError_loop_length)


text \<open>What every iteration of a reader loop consumes.\<close>

lemma loop_decreases:
  assumes "(x, y) = readMessageType cn" and "x = Inr b"
  shows "(r1, y1) = ReadN n y \<Longrightarrow> length (Rd y1) < length (Rd cn)"
    and "(r2, y2) = readError y \<Longrightarrow> length (Rd y2) < length (Rd cn)"
    and "(r3, y3) = logNotice y n \<Longrightarrow> length (Rd y3) < length (Rd cn)"
    and "(r4, y4) = logParameterStatus y n \<Longrightarrow> length (Rd y4) < length (Rd cn)"
proof -
  from assms have lt: "length (Rd y) < length (Rd cn)"
    by (metis readMessageType_length)
  show "(r1, y1) = ReadN n y \<Longrightarrow> length (Rd y1) < length (Rd cn)"
    using lt ReadN_length [of n y r1 y1] by simp
  show "(r2, y2) = readError y \<Longrightarrow> length (Rd y2) < length (Rd cn)"
    using lt readError_length [of y r2 y2] by simp
  show "(r3, y3) = logNotice y n \<Longrightarrow> length (Rd y3) < length (Rd cn)"
    using lt logNotice_length [of y n r3 y3] by simp
  show "(r4, y4) = logParameterStatus y n \<Longrightarrow> length (Rd y4) < length (Rd cn)"
    using lt logParameterStatus_length [of y n r4 y4] by simp
qed

section \<open>Response readers\<close>

text \<open>The closure \<open>setErr\<close> of the readers: only the first error is kept.\<close>

definition setErr :: "error option \<Rightarrow> error \<Rightarrow> error option" where
  "setErr retErr err = (case retErr of None \<Rightarrow> Some err | Some _ \<Rightarrow> retErr)"

text \<open>
  Each reader is its \<open>for\<close> loop, with the local variables of the Go function as
  arguments; the first component of the value is what the Go function returns, the second
  the connection it leaves. Every iteration reads at least the five bytes of a message
  header, so the loop ends on every finite stream: with an I/O error when the stream ends
  inside the response.
\<close>

function readSimpleQuery_loop ::
  "Conn \<Rightarrow> Result option \<Rightarrow> error option \<Rightarrow> int \<Rightarrow> (Result option \<times> error option) \<times> Conn" where
  "readSimpleQuery_loop cn res retErr rows =
     (case readMessageType cn of
        (Inl err, cn1) \<Rightarrow> ((None, Some err), cn1)
      | (Inr (c, msgLen), cn1) \<Rightarrow>
          if c = commandCompleteMsg then
            (case ReadN msgLen cn1 of
                (Inl err, cn2) \<Rightarrow> ((None, Some err), cn2)
              | (Inr b, cn2) \<Rightarrow> readSimpleQuery_loop cn2 (Some (NewResult b rows)) retErr rows)
          else if c = readyForQueryMsg then
            (case ReadN msgLen cn1 of
                (Inl err, cn2) \<Rightarrow> ((None, Some err), cn2)
              | (Inr b, cn2) \<Rightarrow> ((res, retErr), cn2))
          else if c = rowDescriptionMsg then
            (case ReadN msgLen cn1 of
                (Inl err, cn2) \<Rightarrow> ((None, Some err), cn2)
              | (Inr b, cn2) \<Rightarrow> readSimpleQuery_loop cn2 res retErr rows)
          else if c = dataRowMsg then
            (case ReadN msgLen cn1 of
                (Inl err, cn2) \<Rightarrow> ((None, Some err), cn2)
              | (Inr b, cn2) \<Rightarrow> readSimpleQuery_loop cn2 res retErr (rows + 1))
          else if c = errorResponseMsg then
            (case readError cn1 of
                (Inl err, cn2) \<Rightarrow> ((None, Some err), cn2)
              | (Inr e, cn2) \<Rightarrow> readSimpleQuery_loop cn2 res (setErr retErr e) rows)
          else if c = noticeResponseMsg then
            (case logNotice cn1 msgLen of
                (Some err, cn2) \<Rightarrow> ((None, Some err), cn2)
              | (None, cn2) \<Rightarrow> readSimpleQuery_loop cn2 res retErr rows)
          else if c = parameterStatusMsg then
            (case logParameterStatus cn1 msgLen of
                (Some err, cn2) \<Rightarrow> ((None, Some err), cn2)
              | (None, cn2) \<Rightarrow> readSimpleQuery_loop cn2 res retErr rows)
          else ((None, Some (UnexpectedMessage ''readSimpleQuery'' c)), cn1))"
  by pat_completeness auto
termination
  by (relation "measure (\<lambda>(cn, _). length (Rd cn))")
    (auto intro: loop_decreases)

declare readSimpleQuery_loop.simps [simp del]

definition readSimpleQuery :: "Conn \<Rightarrow> (Result option \<times> error option) \<times> Conn" where
  "readSimpleQuery cn = readSimpleQuery_loop cn None None 0"

function readExtQuery_loop ::
  "Conn \<Rightarrow> Result option \<Rightarrow> error option \<Rightarrow> int \<Rightarrow> (Result option \<times> error option) \<times> Conn" where
  "readExtQuery_loop cn res retErr rows =
     (case readMessageType cn of
        (Inl err, cn1) \<Rightarrow> ((None, Some err), cn1)
      | (Inr (c, msgLen), cn1) \<Rightarrow>
          if c = bindCompleteMsg then
            (case ReadN msgLen cn1 of
                (Inl err, cn2) \<Rightarrow> ((None, Some err), cn2)
              | (Inr b, cn2) \<Rightarrow> readExtQuery_loop cn2 res retErr rows)
          else if c = dataRowMsg then
            (case ReadN msgLen cn1 of
                (Inl err, cn2) \<Rightarrow> ((None, Some err), cn2)
              | (Inr b, cn2) \<Rightarrow> readExtQuery_loop cn2 res retErr (rows + 1))
          else if c = commandCompleteMsg then
            (case ReadN msgLen cn1 of
                (Inl err, cn2) \<Rightarrow> ((None, Some err), cn2)
              | (Inr b, cn2) \<Rightarrow> readExtQuery_loop cn2 (Some (NewResult b rows)) retErr rows)
          else if c = readyForQueryMsg then
            (case ReadN msgLen cn1 of
                (Inl err, cn2) \<Rightarrow> ((None, Some err), cn2)
              | (Inr b, cn2) \<Rightarrow> ((res, retErr), cn2))
          else if c = errorResponseMsg then
            (case readError cn1 of
                (Inl err, cn2) \<Rightarrow> ((None, Some err), cn2)
              | (Inr e, cn2) \<Rightarrow> readExtQuery_loop cn2 res (setErr retErr e) rows)
          else if c = noticeResponseMsg then
            (case logNotice cn1 msgLen of
                (Some err, cn2) \<Rightarrow> ((None, Some err), cn2)
              | (None, cn2) \<Rightarrow> readExtQuery_loop cn2 res retErr rows)
          else if c = parameterStatusMsg then
            (case logParameterStatus cn1 msgLen of
                (Some err, cn2) \<Rightarrow> ((None, Some err), cn2)
              | (None, cn2) \<Rightarrow> readExtQuery_loop cn2 res retErr rows)
          else ((None, Some (UnexpectedMessage ''readExtQuery'' c)), cn1))"
  by pat_completeness auto
termination
  by (relation "measure (\<lambda>(cn, _). length (Rd cn))")
    (auto intro: loop_decreases)

declare readExtQuery_loop.simps [simp del]

definition readExtQuery :: "Conn \<Rightarrow> (Result option \<times> error option) \<times> Conn" where
  "readExtQuery cn = readExtQuery_loop cn None None 0"

text \<open>\<open>readReadyForQuery\<close> assigns \<open>retErr\<close> directly; it has no \<open>setErr\<close>.\<close>

function readReadyForQuery_loop ::
  "Conn \<Rightarrow> Result option \<Rightarrow> error option \<Rightarrow> (Result option \<times> error option) \<times> Conn" where
  "readReadyForQuery_loop cn res retErr =
     (case readMessageType cn of
        (Inl err, cn1) \<Rightarrow> ((None, Some err), cn1)
      | (Inr (c, msgLen), cn1) \<Rightarrow>
          if c = commandCompleteMsg then
            (case ReadN msgLen cn1 of
                (Inl err, cn2) \<Rightarrow> ((None, Some err), cn2)
              | (Inr b, cn2) \<Rightarrow> readReadyForQuery_loop cn2 (Some (NewResult b 0)) retErr)
          else if c = readyForQueryMsg then
            (case ReadN msgLen cn1 of
                (Inl err, cn2) \<Rightarrow> ((None, Some err), cn2)
              | (Inr b, cn2) \<Rightarrow> ((res, retErr), cn2))
          else if c = errorResponseMsg then
            (case readError cn1 of
                (Inl err, cn2) \<Rightarrow> ((None, Some err), cn2)
              | (Inr e, cn2) \<Rightarrow> readReadyForQuery_loop cn2 res (Some e))
          else if c = noticeResponseMsg then
            (case logNotice cn1 msgLen of
                (Some err, cn2) \<Rightarrow> ((None, Some err), cn2)
              | (None, cn2) \<Rightarrow> readReadyForQuery_loop cn2 res retErr)
          else if c = parameterStatusMsg then
            (case logParameterStatus cn1 msgLen of
                (Some err, cn2) \<Rightarrow> ((None, Some err), cn2)
              | (None, cn2) \<Rightarrow> readReadyForQuery_loop cn2 res retErr)
          else ((None, Some (UnexpectedMessage ''readReadyForQueryOrError'' c)), cn1))"
  by pat_completeness auto
termination
  by (relation "measure (\<lambda>(cn, _). length (Rd cn))")
    (auto intro: loop_decreases)

declare readReadyForQuery_loop.simps [simp del]

definition readReadyForQuery :: "Conn \<Rightarrow> (Result option \<times> error option) \<times> Conn" where
  "readReadyForQuery cn = readReadyForQuery_loop cn None None"


section \<open>RowDescription and DataRow\<close>

text \<open>
  A Go slice is its visible elements together with the elements of the backing array
  between its length and its capacity; \<open>nil\<close> has neither. \<open>setByteSliceLen\<close> reslices
  within the capacity and appends empty entries beyond it (how much capacity \<open>append\<close>
  then leaves over is the run-time's choice and is not modelled: none). A negative
  length passes the capacity test and the reslice panics.
\<close>

type_synonym 'a slice = "'a list \<times> 'a list"

definition nil :: "'a slice" where
  "nil = ([], [])"

definition setByteSliceLen :: "bytes slice \<Rightarrow> int \<Rightarrow> error + bytes slice" where
  "setByteSliceLen b n =
     (let backing = fst b @ snd b in
      if n \<le> int (length backing)
      then (if n < 0 then Inl (Panic ''slice bounds out of range'')
            else Inr (take (nat n) backing, drop (nat n) backing))
      else Inr (backing @ replicate (nat n - length backing) [], []))"

function readRowDescription_loop ::
  "Conn \<Rightarrow> bytes slice \<Rightarrow> int \<Rightarrow> int \<Rightarrow> (bytes slice \<times> error option) \<times> Conn" where
  "readRowDescription_loop cn columns colNum i =
     (if i < colNum then
        (if 0 \<le> i \<and> nat i < length (fst columns) then
           (case readBytes cn [] of
              (Inl err, cn1) \<Rightarrow> ((nil, Some err), cn1)
            | (Inr name, cn1) \<Rightarrow>
                (case ReadN 18 cn1 of
                   (Inl err, cn2) \<Rightarrow> ((nil, Some err), cn2)
                 | (Inr _, cn2) \<Rightarrow>
                     readRowDescription_loop cn2 ((fst columns)[nat i := name], snd columns)
                       colNum (i + 1)))
         else ((nil, Some (Panic ''index out of range'')), cn))
      else ((columns, None), cn))"
  by pat_completeness auto
termination
  by (relation "measure (\<lambda>(cn, columns, colNum, i). nat (colNum - i))") auto

declare readRowDescription_loop.simps [simp del]

definition readRowDescription :: "Conn \<Rightarrow> bytes slice \<Rightarrow> (bytes slice \<times> error option) \<times> Conn" where
  "readRowDescription cn columns =
     (case readInt16 cn of
        (Inl err, cn1) \<Rightarrow> ((nil, Some err), cn1)
      | (Inr colNum, cn1) \<Rightarrow>
          (case setByteSliceLen columns (sint colNum) of
             Inl err \<Rightarrow> ((nil, Some err), cn1)
           | Inr columns1 \<Rightarrow> readRowDescription_loop cn1 columns1 (sint colNum) 0))"

text \<open>
  \<open>readDataRow\<close>. The \<open>orm.ColumnScanner\<close> is the caller's: \<open>scan st i name b\<close> is
  \<open>ScanColumn(i, name, b)\<close> on a scanner in state \<open>st\<close>, giving the cause of its error,
  if any, and its next state; \<open>b\<close> is \<open>None\<close> for the nil slice of a NULL column. The
  \<open>int16\<close> counter stays below \<open>colNum\<close> and cannot overflow. \<open>columns[colIdx]\<close> past the
  length of \<open>columns\<close> is Go's index-out-of-range panic.
\<close>

type_synonym 's ColumnScanner = "'s \<Rightarrow> int \<Rightarrow> bytes \<Rightarrow> bytes option \<Rightarrow> string option \<times> 's"

function readDataRow_loop ::
  "'s ColumnScanner \<Rightarrow> 's \<Rightarrow> Conn \<Rightarrow> bytes list \<Rightarrow> int \<Rightarrow> int \<Rightarrow> error option
     \<Rightarrow> (error option \<times> 's) \<times> Conn" where
  "readDataRow_loop scan st cn columns colNum colIdx retErr =
     (if colIdx < colNum then
        (case readInt32 cn of
           (Inl err, cn1) \<Rightarrow> ((Some err, st), cn1)
         | (Inr l, cn1) \<Rightarrow>
             (case (if l \<noteq> - 1
                    then (case ReadN (sint l) cn1 of
                            (Inl err, cn2) \<Rightarrow> (Inl err, cn2)
                          | (Inr b, cn2) \<Rightarrow> (Inr (Some b), cn2))
                    else (Inr None, cn1)) of
                (Inl err, cn2) \<Rightarrow> ((Some err, st), cn2)
              | (Inr b, cn2) \<Rightarrow>
                  if 0 \<le> colIdx \<and> nat colIdx < length columns then
                    (case scan st colIdx (columns ! nat colIdx) b of
                       (Some cause, st1) \<Rightarrow>
                         readDataRow_loop scan st1 cn2 columns colNum (colIdx + 1)
                           (setErr retErr (ScanError cause))
                     | (None, st1) \<Rightarrow>
                         readDataRow_loop scan st1 cn2 columns colNum (colIdx + 1) retErr)
                  else ((Some (Panic ''index out of range''), st), cn2)))
      else ((retErr, st), cn))"
  by pat_completeness auto
termination
  by (relation "measure (\<lambda>(scan, st, cn, columns, colNum, colIdx, retErr). nat (colNum - colIdx))")
    auto

declare readDataRow_loop.simps [simp del]

definition readDataRow ::
  "Conn \<Rightarrow> 's ColumnScanner \<Rightarrow> 's \<Rightarrow> bytes list \<Rightarrow> (error option \<times> 's) \<times> Conn" where
  "readDataRow cn scan st columns =
     (case readInt16 cn of
        (Inl err, cn1) \<Rightarrow> ((Some err, st), cn1)
      | (Inr colNum, cn1) \<Rightarrow> readDataRow_loop scan st cn1 columns (sint colNum) 0 None)"

section \<open>Prepare and COPY readers\<close>

lemma readRowDescription_loop_length:
  "readRowDescription_loop cn columns colNum i = (r, cn1) \<Longrightarrow> length (Rd cn1) \<le> length (Rd cn)"
proof (induction cn columns colNum i rule: readRowDescription_loop.induct)
  case (1 cn columns colNum i)
  show ?case
  proof (cases "i < colNum \<and> 0 \<le> i \<and> nat i < length (fst columns)")
    case False
    with "1.prems" show ?thesis
      by (auto simp: readRowDescription_loop.simps [of cn] split: if_splits)
  next
    case True
    obtain a cn' where rb: "readBytes cn [] = (a, cn')" by (cases "readBytes cn []")
    then have le1: "length (Rd cn') \<le> length (Rd cn)"
      by (auto simp: readBytes_def split: if_splits
          intro: order_trans [OF diff_le_self length_dropWhile_le])
    show ?thesis
    proof (cases a)
      case (Inl e)
      with rb True "1.prems" le1 show ?thesis
        by (simp add: readRowDescription_loop.simps [of cn])
    next
      case (Inr name)
      obtain b cn'' where rn: "ReadN 18 cn' = (b, cn'')" by (cases "ReadN 18 cn'")
      then have le2: "length (Rd cn'') \<le> length (Rd cn')" by (rule ReadN_length)
      show ?thesis
      proof (cases b)
        case (Inl e)
        with rb \<open>a = Inr name\<close> rn True "1.prems" le1 le2 show ?thesis
          by (simp add: readRowDescription_loop.simps [of cn])
      next
        case (Inr x)
        with rb \<open>a = Inr name\<close> rn True "1.prems"
        have "readRowDescription_loop cn'' ((fst columns)[nat i := name], snd columns)
                colNum (i + 1) = (r, cn1)"
          by (simp add: readRowDescription_loop.simps [of cn])
        with "1.IH" [OF _ _ rb [symmetric] \<open>a = Inr name\<close> rn [symmetric] Inr] True
        have "length (Rd cn1) \<le> length (Rd cn'')" by blast
        with le1 le2 show ?thesis by simp
      qed
    qed
  qed
qed

lemma readInt16_length: "readInt16 cn = (r, cn1) \<Longrightarrow> length (Rd cn1) \<le> length (Rd cn)"
  by (auto simp: readInt16_def split: prod.splits sum.splits dest: ReadN_length)

lemma readRowDescription_length:
  "readRowDescription cn columns = (r, cn1) \<Longrightarrow> length (Rd cn1) \<le> length (Rd cn)"
  by (auto simp: readRowDescription_def split: prod.splits sum.splits
      dest!: readRowDescription_loop_length readInt16_length)

lemma loop_decreases_rowdesc:
  assumes "(x, y) = readMessageType cn" and "x = Inr b"
    and "(r1, y1) = readRowDescription y cols"
  shows "length (Rd y1) < length (Rd cn)"
proof -
  from assms(1,2) have "length (Rd y) < length (Rd cn)"
    by (metis readMessageType_length)
  with readRowDescription_length [of y cols r1 y1] assms(3) show ?thesis by simp
qed

text \<open>
  \<open>readParseDescribeSync\<close>: on \<open>ReadyForQuery\<close> the columns are returned together with
  the outcome of draining the payload; on \<open>ErrorResponse\<close> the function returns at once.
\<close>

function readParseDescribeSync_loop ::
  "Conn \<Rightarrow> bytes slice \<Rightarrow> (bytes slice \<times> error option) \<times> Conn" where
  "readParseDescribeSync_loop cn columns =
     (case readMessageType cn of
        (Inl err, cn1) \<Rightarrow> ((nil, Some err), cn1)
      | (Inr (c, msgLen), cn1) \<Rightarrow>
          if c = parseCompleteMsg then
            (case ReadN msgLen cn1 of
                (Inl err, cn2) \<Rightarrow> ((nil, Some err), cn2)
              | (Inr b, cn2) \<Rightarrow> readParseDescribeSync_loop cn2 columns)
          else if c = rowDescriptionMsg then
            (case readRowDescription cn1 nil of
                ((_, Some err), cn2) \<Rightarrow> ((nil, Some err), cn2)
              | ((columns1, None), cn2) \<Rightarrow> readParseDescribeSync_loop cn2 columns1)
          else if c = parameterDescriptionMsg then
            (case ReadN msgLen cn1 of
                (Inl err, cn2) \<Rightarrow> ((nil, Some err), cn2)
              | (Inr b, cn2) \<Rightarrow> readParseDescribeSync_loop cn2 columns)
          else if c = noDataMsg then
            (case ReadN msgLen cn1 of
                (Inl err, cn2) \<Rightarrow> ((nil, Some err), cn2)
              | (Inr b, cn2) \<Rightarrow> readParseDescribeSync_loop cn2 columns)
          else if c = readyForQueryMsg then
            (case ReadN msgLen cn1 of
                (Inl err, cn2) \<Rightarrow> ((columns, Some err), cn2)
              | (Inr b, cn2) \<Rightarrow> ((columns, None), cn2))
          else if c = errorResponseMsg then
            (case readError cn1 of
                (Inl err, cn2) \<Rightarrow> ((nil, Some err), cn2)
              | (Inr e, cn2) \<Rightarrow> ((nil, Some e), cn2))
          else if c = noticeResponseMsg then
            (case logNotice cn1 msgLen of
                (Some err, cn2) \<Rightarrow> ((nil, Some err), cn2)
              | (None, cn2) \<Rightarrow> readParseDescribeSync_loop cn2 columns)
          else if c = parameterStatusMsg then
            (case logParameterStatus cn1 msgLen of
                (Some err, cn2) \<Rightarrow> ((nil, Some err), cn2)
              | (None, cn2) \<Rightarrow> readParseDescribeSync_loop cn2 columns)
          else ((nil, Some (UnexpectedMessage ''readParseDescribeSync'' c)), cn1))"
  by pat_completeness auto
termination
  by (relation "measure (\<lambda>(cn, _). length (Rd cn))")
    (auto intro: loop_decreases loop_decreases_rowdesc)

declare readParseDescribeSync_loop.simps [simp del]

definition readParseDescribeSync :: "Conn \<Rightarrow> (bytes slice \<times> error option) \<times> Conn" where
  "readParseDescribeSync cn = readParseDescribeSync_loop cn nil"

text \<open>
  \<open>readCopyData\<close>. The \<open>io.Writer\<close> is the caller's: \<open>write w b\<close> is \<open>w.Write(b)\<close> on a
  writer in state \<open>w\<close>, giving its error, if any, and its next state.
\<close>

type_synonym 'w Writer = "'w \<Rightarrow> bytes \<Rightarrow> error option \<times> 'w"

function readCopyData_loop ::
  "'w Writer \<Rightarrow> Conn \<Rightarrow> 'w \<Rightarrow> Result option \<Rightarrow> ((Result option \<times> error option) \<times> 'w) \<times> Conn" where
  "readCopyData_loop write cn w res =
     (case readMessageType cn of
        (Inl err, cn1) \<Rightarrow> (((None, Some err), w), cn1)
      | (Inr (c, msgLen), cn1) \<Rightarrow>
          if c = copyDataMsg then
            (case ReadN msgLen cn1 of
               (Inl err, cn2) \<Rightarrow> (((None, Some err), w), cn2)
             | (Inr b, cn2) \<Rightarrow>
                 (case write w b of
                    (Some err, w1) \<Rightarrow> (((None, Some err), w1), cn2)
                  | (None, w1) \<Rightarrow> readCopyData_loop write cn2 w1 res))
          else if c = copyDoneMsg then
            (case ReadN msgLen cn1 of
                (Inl err, cn2) \<Rightarrow> (((None, Some err), w), cn2)
              | (Inr b, cn2) \<Rightarrow> readCopyData_loop write cn2 w res)
          else if c = commandCompleteMsg then
            (case ReadN msgLen cn1 of
                (Inl err, cn2) \<Rightarrow> (((None, Some err), w), cn2)
              | (Inr b, cn2) \<Rightarrow> readCopyData_loop write cn2 w (Some (NewResult b 0)))
          else if c = readyForQueryMsg then
            (case ReadN msgLen cn1 of
                (Inl err, cn2) \<Rightarrow> (((res, Some err), w), cn2)
              | (Inr b, cn2) \<Rightarrow> (((res, None), w), cn2))
          else if c = errorResponseMsg then
            (case readError cn1 of
                (Inl err, cn2) \<Rightarrow> (((None, Some err), w), cn2)
              | (Inr e, cn2) \<Rightarrow> (((None, Some e), w), cn2))
          else if c = noticeResponseMsg then
            (case logNotice cn1 msgLen of
                (Some err, cn2) \<Rightarrow> (((None, Some err), w), cn2)
              | (None, cn2) \<Rightarrow> readCopyData_loop write cn2 w res)
          else if c = parameterStatusMsg then
            (case logParameterStatus cn1 msgLen of
                (Some err, cn2) \<Rightarrow> (((None, Some err), w), cn2)
              | (None, cn2) \<Rightarrow> readCopyData_loop write cn2 w res)
          else (((None, Some (UnexpectedMessage ''readCopyData'' c)), w), cn1))"
  by pat_completeness auto
termination
  by (relation "measure (\<lambda>(write, cn, _). length (Rd cn))")
    (auto intro: loop_decreases)

declare readCopyData_loop.simps [simp del]

definition readCopyData :: "Conn \<Rightarrow> 'w Writer \<Rightarrow> 'w \<Rightarrow> ((Result option \<times> error option) \<times> 'w) \<times> Conn" where
  "readCopyData cn write w = readCopyData_loop write cn w None"


section \<open>Messages on the wire\<close>

text \<open>
  What the server sends, as the protocol frames it: a tag byte, the big-endian 32-bit
  length of the rest including the length field itself, and the payload. The payload of
  an ErrorResponse is a list of fields, each a non-zero code byte and a NUL-terminated
  string, closed by a zero byte.
\<close>

definition encode_msg :: "byte \<Rightarrow> bytes \<Rightarrow> bytes" where
  "encode_msg c p = c # be32 (word_of_nat (length p + 4)) @ p"

definition encode_fields :: "(byte \<times> bytes) list \<Rightarrow> bytes" where
  "encode_fields fs = concat (map (\<lambda>(c, s). c # s @ [0]) fs) @ [0]"

datatype message = Message byte bytes | ErrorResponse "(byte \<times> bytes) list"

fun encode :: "message \<Rightarrow> bytes" where
  "encode (Message c p) = encode_msg c p"
| "encode (ErrorResponse fs) = encode_msg errorResponseMsg (encode_fields fs)"

definition wire :: "message list \<Rightarrow> bytes" where
  "wire ms = concat (map encode ms)"

text \<open>A message is well formed when its length fits the signed 32-bit field and, for an
  ErrorResponse, no field code is zero and no field string holds a NUL.\<close>

fun fields_ok :: "(byte \<times> bytes) list \<Rightarrow> bool" where
  "fields_ok [] = True"
| "fields_ok ((c, s) # fs) = (c \<noteq> 0 \<and> 0 \<notin> set s \<and> fields_ok fs)"

fun wf_message :: "message \<Rightarrow> bool" where
  "wf_message (Message c p) = (length p + 4 < 2 ^ 31)"
| "wf_message (ErrorResponse fs) = (length (encode_fields fs) + 4 < 2 ^ 31 \<and> fields_ok fs)"

text \<open>The field map \<open>readError\<close> builds from the fields of one ErrorResponse.\<close>

fun put_fields :: "(byte \<times> bytes) list \<Rightarrow> (byte \<rightharpoonup> bytes) \<Rightarrow> (byte \<rightharpoonup> bytes)" where
  "put_fields [] m = m"
| "put_fields ((c, s) # fs) m = put_fields fs (m(c \<mapsto> s))"

definition pg_error :: "Conn \<Rightarrow> (byte \<times> bytes) list \<Rightarrow> error" where
  "pg_error cn fs = ServerError (put_fields fs [0x61 \<mapsto> RemoteAddr cn])"

text \<open>A connection with nothing read, written or buffered, for the concrete runs.\<close>

definition idle_conn :: Conn where
  "idle_conn =
     \<lparr>Rd = [], Wr = \<lparr>Bytes = [], msgStart = 0, paramStart = 0\<rparr>, Sent = [],
      WriteFails = False, Tls = False, RemoteAddr = str ''db:5432''\<rparr>"

section \<open>Reading what was encoded\<close>

lemma Uint32_be32 [simp]: "Uint32 (be32 w) = w"
  unfolding be32_def Uint32.simps
proof (rule bit_word_eqI)
  fix n assume n: "n < LENGTH(32)"
  then have "n < 8 \<or> (8 \<le> n \<and> n < 16) \<or> (16 \<le> n \<and> n < 24) \<or> (24 \<le> n \<and> n < 32)"
    by auto
  then show "bit (ucast (ucast w :: byte) OR push_bit 8 (ucast (ucast (drop_bit 8 w) :: byte)) OR
       push_bit 16 (ucast (ucast (drop_bit 16 w) :: byte)) OR
       push_bit 24 (ucast (ucast (drop_bit 24 w) :: byte)) :: 32 word) n = bit w n"
    using n by (auto simp: bit_simps)
qed

lemma Uint16_be16 [simp]: "Uint16 (be16 w) = w"
  unfolding be16_def Uint16.simps
  by (rule bit_word_eqI) (auto simp: bit_simps)

lemma length_be32 [simp]: "length (be32 w) = 4"
  by (simp add: be32_def)

lemma length_be16 [simp]: "length (be16 w) = 2"
  by (simp add: be16_def)

lemma sint_of_nat_32: "n < 2 ^ 31 \<Longrightarrow> sint (word_of_nat n :: 32 word) = int n"
  by (simp add: signed_of_nat signed_take_bit_int_eq_self)

lemma sint_of_nat_16: "n < 2 ^ 15 \<Longrightarrow> sint (word_of_nat n :: 16 word) = int n"
  by (simp add: signed_of_nat signed_take_bit_int_eq_self)

lemma ReadN_append [simp]:
  "n = int (length p) \<Longrightarrow> ReadN n (cn\<lparr>Rd := p @ r\<rparr>) = (Inr p, cn\<lparr>Rd := r\<rparr>)"
  by (simp add: ReadN_def)

lemma readInt32_be32 [simp]:
  "readInt32 (cn\<lparr>Rd := be32 w @ r\<rparr>) = (Inr w, cn\<lparr>Rd := r\<rparr>)"
  by (simp add: readInt32_def)

lemma readInt16_be16 [simp]:
  "readInt16 (cn\<lparr>Rd := be16 w @ r\<rparr>) = (Inr w, cn\<lparr>Rd := r\<rparr>)"
  by (simp add: readInt16_def)

lemma ReadByte_Cons [simp]: "ReadByte (cn\<lparr>Rd := c # r\<rparr>) = (Inr c, cn\<lparr>Rd := r\<rparr>)"
  by (simp add: ReadByte_def)

lemma takeWhile_cstr: "0 \<notin> set s \<Longrightarrow> takeWhile (\<lambda>c. c \<noteq> (0::byte)) (s @ 0 # r) = s"
  by (induction s) auto

lemma dropWhile_cstr: "0 \<notin> set s \<Longrightarrow> dropWhile (\<lambda>c. c \<noteq> (0::byte)) (s @ 0 # r) = 0 # r"
  by (induction s) auto

lemma readString_cstr [simp]:
  "0 \<notin> set s \<Longrightarrow> readString (cn\<lparr>Rd := s @ 0 # r\<rparr>) = (Inr s, cn\<lparr>Rd := r\<rparr>)"
  by (simp add: readString_def takeWhile_cstr dropWhile_cstr)

lemma readBytes_cstr [simp]:
  "0 \<notin> set s \<Longrightarrow> readBytes (cn\<lparr>Rd := s @ 0 # r\<rparr>) b = (Inr (b @ s), cn\<lparr>Rd := r\<rparr>)"
  by (simp add: readBytes_def takeWhile_cstr dropWhile_cstr)

lemma readMessageType_encode_msg [simp]:
  "length p + 4 < 2 ^ 31 \<Longrightarrow>
   readMessageType (cn\<lparr>Rd := encode_msg c p @ r\<rparr>) = (Inr (c, int (length p)), cn\<lparr>Rd := p @ r\<rparr>)"
  using sint_of_nat_32 [of "length p + 4"] by (simp add: readMessageType_def encode_msg_def)

lemma readError_loop_fields:
  "fields_ok fs \<Longrightarrow>
   readError_loop (cn\<lparr>Rd := encode_fields fs @ r\<rparr>) m = (Inr (put_fields fs m), cn\<lparr>Rd := r\<rparr>)"
proof (induction fs arbitrary: m cn)
  case Nil
  show ?case
    by (simp add: encode_fields_def readError_loop.simps [of "cn\<lparr>Rd := 0 # r\<rparr>"])
next
  case (Cons f fs)
  obtain c s where f: "f = (c, s)" by (cases f)
  from Cons.prems f have ok: "c \<noteq> 0" "0 \<notin> set s" "fields_ok fs" by simp_all
  have "readError_loop (cn\<lparr>Rd := c # s @ 0 # encode_fields fs @ r\<rparr>) m =
        readError_loop (cn\<lparr>Rd := encode_fields fs @ r\<rparr>) (m(c \<mapsto> s))"
    using ok by (subst readError_loop.simps) simp
  with Cons.IH [OF ok(3)] f show ?case
    by (simp add: encode_fields_def fun_upd_def)
qed

lemma readError_fields [simp]:
  "fields_ok fs \<Longrightarrow>
   readError (cn\<lparr>Rd := encode_fields fs @ r\<rparr>) = (Inr (pg_error cn fs), cn\<lparr>Rd := r\<rparr>)"
  by (simp add: readError_def readError_loop_fields pg_error_def)

section \<open>The query readers on a whole response\<close>

text \<open>
  The messages each reader takes before the closing ReadyForQuery, and what a run over a
  list of them leaves in the reader's variables \<open>res\<close>, \<open>rows\<close> and \<open>retErr\<close>.
\<close>

fun simple_accepts :: "message \<Rightarrow> bool" where
  "simple_accepts (Message c p) =
     (c = commandCompleteMsg \<or> c = rowDescriptionMsg \<or> c = dataRowMsg \<or>
      c = noticeResponseMsg \<or> c = parameterStatusMsg)"
| "simple_accepts (ErrorResponse fs) = True"

fun ext_accepts :: "message \<Rightarrow> bool" where
  "ext_accepts (Message c p) =
     (c = bindCompleteMsg \<or> c = dataRowMsg \<or> c = commandCompleteMsg \<or>
      c = noticeResponseMsg \<or> c = parameterStatusMsg)"
| "ext_accepts (ErrorResponse fs) = True"

fun run_result :: "message list \<Rightarrow> Result option \<Rightarrow> int \<Rightarrow> Result option" where
  "run_result [] res rows = res"
| "run_result (Message c p # ms) res rows =
     (if c = commandCompleteMsg then run_result ms (Some (NewResult p rows)) rows
      else if c = dataRowMsg then run_result ms res (rows + 1)
      else run_result ms res rows)"
| "run_result (ErrorResponse fs # ms) res rows = run_result ms res rows"

fun run_rows :: "message list \<Rightarrow> int \<Rightarrow> int" where
  "run_rows [] rows = rows"
| "run_rows (Message c p # ms) rows = run_rows ms (if c = dataRowMsg then rows + 1 else rows)"
| "run_rows (ErrorResponse fs # ms) rows = run_rows ms rows"

fun run_error :: "Conn \<Rightarrow> message list \<Rightarrow> error option \<Rightarrow> error option" where
  "run_error cn [] e = e"
| "run_error cn (Message c p # ms) e = run_error cn ms e"
| "run_error cn (ErrorResponse fs # ms) e = run_error cn ms (setErr e (pg_error cn fs))"


fun is_DataRow :: "message \<Rightarrow> bool" where
  "is_DataRow (Message c p) = (c = dataRowMsg)"
| "is_DataRow (ErrorResponse fs) = False"

fun is_CommandComplete :: "message \<Rightarrow> bool" where
  "is_CommandComplete (Message c p) = (c = commandCompleteMsg)"
| "is_CommandComplete (ErrorResponse fs) = False"

text \<open>The server error of the first ErrorResponse of a response.\<close>

fun first_error :: "Conn \<Rightarrow> message list \<Rightarrow> error option" where
  "first_error cn [] = None"
| "first_error cn (Message c p # ms) = first_error cn ms"
| "first_error cn (ErrorResponse fs # ms) = Some (pg_error cn fs)"

lemma sq_step_msg:
  assumes "wf_message (Message c p)" "simple_accepts (Message c p)"
  shows "readSimpleQuery_loop (cn\<lparr>Rd := encode (Message c p) @ r\<rparr>) res e rows =
         readSimpleQuery_loop (cn\<lparr>Rd := r\<rparr>)
           (if c = commandCompleteMsg then Some (NewResult p rows) else res) e
           (if c = dataRowMsg then rows + 1 else rows)"
  using assms
  by (subst readSimpleQuery_loop.simps)
    (auto simp: msg_tags logNotice_def logParameterStatus_def)

lemma sq_step_err:
  assumes "wf_message (ErrorResponse fs)"
  shows "readSimpleQuery_loop (cn\<lparr>Rd := encode (ErrorResponse fs) @ r\<rparr>) res e rows =
         readSimpleQuery_loop (cn\<lparr>Rd := r\<rparr>) res (setErr e (pg_error cn fs)) rows"
  using assms
  by (subst readSimpleQuery_loop.simps) (simp add: msg_tags)

lemma sq_done:
  assumes "length st + 4 < 2 ^ 31"
  shows "readSimpleQuery_loop (cn\<lparr>Rd := encode_msg readyForQueryMsg st @ r\<rparr>) res e rows =
         ((res, e), cn\<lparr>Rd := r\<rparr>)"
  using assms
  by (subst readSimpleQuery_loop.simps) (simp add: msg_tags)

lemma sq_run:
  "\<forall>m\<in>set ms. wf_message m \<and> simple_accepts m \<Longrightarrow>
   readSimpleQuery_loop (cn\<lparr>Rd := wire ms @ r\<rparr>) res e rows =
   readSimpleQuery_loop (cn\<lparr>Rd := r\<rparr>) (run_result ms res rows) (run_error cn ms e) (run_rows ms rows)"
proof (induction ms arbitrary: res e rows)
  case Nil
  show ?case by (simp add: wire_def)
next
  case (Cons m ms)
  then have IH: "\<And>res e rows. readSimpleQuery_loop (cn\<lparr>Rd := wire ms @ r\<rparr>) res e rows =
   readSimpleQuery_loop (cn\<lparr>Rd := r\<rparr>) (run_result ms res rows) (run_error cn ms e) (run_rows ms rows)"
    by simp
  from Cons.prems have m: "wf_message m" "simple_accepts m" by simp_all
  have w: "\<And>x. wire (x # ms) @ r = encode x @ wire ms @ r" by (simp add: wire_def)
  show ?case
  proof (cases m)
    case (Message c p)
    have "readSimpleQuery_loop (cn\<lparr>Rd := wire (m # ms) @ r\<rparr>) res e rows =
          readSimpleQuery_loop (cn\<lparr>Rd := wire ms @ r\<rparr>)
            (if c = commandCompleteMsg then Some (NewResult p rows) else res) e
            (if c = dataRowMsg then rows + 1 else rows)"
      using sq_step_msg [where c = c and p = p and cn = cn and r = "wire ms @ r" and res = res and e = e and rows = rows] m
      unfolding Message w by blast
    also have "\<dots> = readSimpleQuery_loop (cn\<lparr>Rd := r\<rparr>)
         (run_result ms (if c = commandCompleteMsg then Some (NewResult p rows) else res)
            (if c = dataRowMsg then rows + 1 else rows))
         (run_error cn ms e) (run_rows ms (if c = dataRowMsg then rows + 1 else rows))"
      by (rule IH)
    finally show ?thesis
      unfolding Message by (simp add: msg_tags)
  next
    case (ErrorResponse fs)
    have "readSimpleQuery_loop (cn\<lparr>Rd := wire (m # ms) @ r\<rparr>) res e rows =
          readSimpleQuery_loop (cn\<lparr>Rd := wire ms @ r\<rparr>) res (setErr e (pg_error cn fs)) rows"
      using sq_step_err [where fs = fs and cn = cn and r = "wire ms @ r" and res = res and e = e and rows = rows] m
      unfolding ErrorResponse w by blast
    also have "\<dots> = readSimpleQuery_loop (cn\<lparr>Rd := r\<rparr>) (run_result ms res rows)
         (run_error cn ms (setErr e (pg_error cn fs))) (run_rows ms rows)"
      by (rule IH)
    finally show ?thesis
      unfolding ErrorResponse by simp
  qed
qed

lemma eq_step_msg:
  assumes "wf_message (Message c p)" "ext_accepts (Message c p)"
  shows "readExtQuery_loop (cn\<lparr>Rd := encode (Message c p) @ r\<rparr>) res e rows =
         readExtQuery_loop (cn\<lparr>Rd := r\<rparr>)
           (if c = commandCompleteMsg then Some (NewResult p rows) else res) e
           (if c = dataRowMsg then rows + 1 else rows)"
  using assms
  by (subst readExtQuery_loop.simps)
    (auto simp: msg_tags logNotice_def logParameterStatus_def)

lemma eq_step_err:
  assumes "wf_message (ErrorResponse fs)"
  shows "readExtQuery_loop (cn\<lparr>Rd := encode (ErrorResponse fs) @ r\<rparr>) res e rows =
         readExtQuery_loop (cn\<lparr>Rd := r\<rparr>) res (setErr e (pg_error cn fs)) rows"
  using assms
  by (subst readExtQuery_loop.simps) (simp add: msg_tags)

lemma eq_done:
  assumes "length st + 4 < 2 ^ 31"
  shows "readExtQuery_loop (cn\<lparr>Rd := encode_msg readyForQueryMsg st @ r\<rparr>) res e rows =
         ((res, e), cn\<lparr>Rd := r\<rparr>)"
  using assms
  by (subst readExtQuery_loop.simps) (simp add: msg_tags)

lemma eq_run:
  "\<forall>m\<in>set ms. wf_message m \<and> ext_accepts m \<Longrightarrow>
   readExtQuery_loop (cn\<lparr>Rd := wire ms @ r\<rparr>) res e rows =
   readExtQuery_loop (cn\<lparr>Rd := r\<rparr>) (run_result ms res rows) (run_error cn ms e) (run_rows ms rows)"
proof (induction ms arbitrary: res e rows)
  case Nil
  show ?case by (simp add: wire_def)
next
  case (Cons m ms)
  then have IH: "\<And>res e rows. readExtQuery_loop (cn\<lparr>Rd := wire ms @ r\<rparr>) res e rows =
   readExtQuery_loop (cn\<lparr>Rd := r\<rparr>) (run_result ms res rows) (run_error cn ms e) (run_rows ms rows)"
    by simp
  from Cons.prems have m: "wf_message m" "ext_accepts m" by simp_all
  have w: "\<And>x. wire (x # ms) @ r = encode x @ wire ms @ r" by (simp add: wire_def)
  show ?case
  proof (cases m)
    case (Message c p)
    have "readExtQuery_loop (cn\<lparr>Rd := wire (m # ms) @ r\<rparr>) res e rows =
          readExtQuery_loop (cn\<lparr>Rd := wire ms @ r\<rparr>)
            (if c = commandCompleteMsg then Some (NewResult p rows) else res) e
            (if c = dataRowMsg then rows + 1 else rows)"
      using eq_step_msg [where c = c and p = p and cn = cn and r = "wire ms @ r" and res = res and e = e and rows = rows] m
      unfolding Message w by blast
    also have "\<dots> = readExtQuery_loop (cn\<lparr>Rd := r\<rparr>)
         (run_result ms (if c = commandCompleteMsg then Some (NewResult p rows) else res)
            (if c = dataRowMsg then rows + 1 else rows))
         (run_error cn ms e) (run_rows ms (if c = dataRowMsg then rows + 1 else rows))"
      by (rule IH)
    finally show ?thesis
      unfolding Message by (simp add: msg_tags)
  next
    case (ErrorResponse fs)
    have "readExtQuery_loop (cn\<lparr>Rd := wire (m # ms) @ r\<rparr>) res e rows =
          readExtQuery_loop (cn\<lparr>Rd := wire ms @ r\<rparr>) res (setErr e (pg_error cn fs)) rows"
      using eq_step_err [where fs = fs and cn = cn and r = "wire ms @ r" and res = res and e = e and rows = rows] m
      unfolding ErrorResponse w by blast
    also have "\<dots> = readExtQuery_loop (cn\<lparr>Rd := r\<rparr>) (run_result ms res rows)
         (run_error cn ms (setErr e (pg_error cn fs))) (run_rows ms rows)"
      by (rule IH)
    finally show ?thesis
      unfolding ErrorResponse by simp
  qed
qed


lemma run_error_Some: "run_error cn ms (Some e) = Some e"
proof (induction ms)
  case (Cons m ms)
  then show ?case by (cases m) (simp_all add: setErr_def)
qed simp

lemma run_error_first: "run_error cn ms None = first_error cn ms"
proof (induction ms)
  case (Cons m ms)
  then show ?case by (cases m) (simp_all add: setErr_def run_error_Some)
qed simp

lemma run_rows_count: "run_rows ms rows = rows + int (length (filter is_DataRow ms))"
  by (induction ms rows rule: run_rows.induct) simp_all

lemma run_result_append:
  "run_result (xs @ ys) res rows = run_result ys (run_result xs res rows) (run_rows xs rows)"
  by (induction xs res rows rule: run_result.induct) (simp_all add: msg_tags)

lemma run_result_no_CommandComplete:
  "\<forall>m\<in>set ms. \<not> is_CommandComplete m \<Longrightarrow> run_result ms res rows = res"
  by (induction ms res rows rule: run_result.induct) (simp_all add: msg_tags)

lemma run_result_last_CommandComplete:
  assumes "\<forall>m\<in>set post. \<not> is_CommandComplete m"
  shows "run_result (pre @ Message commandCompleteMsg t # post) res rows =
         Some (NewResult t (rows + int (length (filter is_DataRow pre))))"
  using assms
  by (simp add: run_result_append run_result_no_CommandComplete run_rows_count)

lemma readSimpleQuery_response:
  assumes "\<forall>m\<in>set ms. wf_message m \<and> simple_accepts m" and "length st + 4 < 2 ^ 31"
  shows "readSimpleQuery (cn\<lparr>Rd := wire ms @ encode (Message readyForQueryMsg st) @ rest\<rparr>) =
         ((run_result ms None 0, first_error cn ms), cn\<lparr>Rd := rest\<rparr>)"
  using assms by (simp add: readSimpleQuery_def sq_run sq_done run_error_first)

lemma readExtQuery_response:
  assumes "\<forall>m\<in>set ms. wf_message m \<and> ext_accepts m" and "length st + 4 < 2 ^ 31"
  shows "readExtQuery (cn\<lparr>Rd := wire ms @ encode (Message readyForQueryMsg st) @ rest\<rparr>) =
         ((run_result ms None 0, first_error cn ms), cn\<lparr>Rd := rest\<rparr>)"
  using assms by (simp add: readExtQuery_def eq_run eq_done run_error_first)



section \<open>Row count and command tag of a query result\<close>

text \<open>
  Claim C7, as amended. For every response taken by \<open>readSimpleQuery\<close> or by
  \<open>readExtQuery\<close> up to the closing ReadyForQuery that holds a CommandComplete, the
  returned Result carries the payload of the last CommandComplete as its command tag,
  and its row count is the number of DataRow messages that came before that last
  CommandComplete.
\<close>

theorem query_result_rows_before_last_CommandComplete:
  assumes "\<forall>m\<in>set ms. wf_message m" and "length st + 4 < 2 ^ 31"
    and "ms = pre @ Message commandCompleteMsg t # post"
    and "\<forall>m\<in>set post. \<not> is_CommandComplete m"
  shows "((\<forall>m\<in>set ms. simple_accepts m) \<longrightarrow>
            fst (fst (readSimpleQuery
              (cn\<lparr>Rd := wire ms @ encode (Message readyForQueryMsg st) @ rest\<rparr>))) =
            Some \<lparr>tag = t, returned = int (length (filter is_DataRow pre))\<rparr>) \<and>
         ((\<forall>m\<in>set ms. ext_accepts m) \<longrightarrow>
            fst (fst (readExtQuery
              (cn\<lparr>Rd := wire ms @ encode (Message readyForQueryMsg st) @ rest\<rparr>))) =
            Some \<lparr>tag = t, returned = int (length (filter is_DataRow pre))\<rparr>)"
proof -
  have res: "run_result ms None 0 = Some \<lparr>tag = t, returned = int (length (filter is_DataRow pre))\<rparr>"
    unfolding assms(3) using run_result_last_CommandComplete [OF assms(4), of pre t None 0]
    by (simp add: NewResult_def)
  show ?thesis
  proof (intro conjI impI)
    assume "\<forall>m\<in>set ms. simple_accepts m"
    with assms(1) have "\<forall>m\<in>set ms. wf_message m \<and> simple_accepts m" by blast
    from readSimpleQuery_response [OF this assms(2)] res
    show "fst (fst (readSimpleQuery
              (cn\<lparr>Rd := wire ms @ encode (Message readyForQueryMsg st) @ rest\<rparr>))) =
            Some \<lparr>tag = t, returned = int (length (filter is_DataRow pre))\<rparr>"
      by simp
  next
    assume "\<forall>m\<in>set ms. ext_accepts m"
    with assms(1) have "\<forall>m\<in>set ms. wf_message m \<and> ext_accepts m" by blast
    from readExtQuery_response [OF this assms(2)] res
    show "fst (fst (readExtQuery
              (cn\<lparr>Rd := wire ms @ encode (Message readyForQueryMsg st) @ rest\<rparr>))) =
            Some \<lparr>tag = t, returned = int (length (filter is_DataRow pre))\<rparr>"
      by simp
  qed
qed

text \<open>
  The theorem at a response of two DataRow messages and \<open>CommandComplete "SELECT 2"\<close>.
\<close>

theorem query_result_rows_witness:
  "fst (fst (readSimpleQuery (idle_conn\<lparr>Rd :=
      wire [Message dataRowMsg [0, 0], Message dataRowMsg [0, 0],
            Message commandCompleteMsg (str ''SELECT 2'')] @
      encode (Message readyForQueryMsg [0x49]) @ []\<rparr>))) =
     Some \<lparr>tag = str ''SELECT 2'', returned = 2\<rparr> \<and>
   fst (fst (readExtQuery (idle_conn\<lparr>Rd :=
      wire [Message dataRowMsg [0, 0], Message dataRowMsg [0, 0],
            Message commandCompleteMsg (str ''SELECT 2'')] @
      encode (Message readyForQueryMsg [0x49]) @ []\<rparr>))) =
     Some \<lparr>tag = str ''SELECT 2'', returned = 2\<rparr>"
  using query_result_rows_before_last_CommandComplete
    [where ms = "[Message dataRowMsg [0, 0], Message dataRowMsg [0, 0],
          Message commandCompleteMsg (str ''SELECT 2'')]"
      and st = "[0x49]" and pre = "[Message dataRowMsg [0, 0], Message dataRowMsg [0, 0]]"
      and t = "str ''SELECT 2''" and post = "[]" and cn = idle_conn and rest = "[]"]
  by (simp add: msg_tags str_def)

text \<open>
  Claim C7 as stated fails where a DataRow follows the last CommandComplete: both readers
  take the response \<open>CommandComplete "SELECT 1"\<close>, DataRow, ReadyForQuery to its end and
  return a row count of 0, with one DataRow consumed.
\<close>

theorem query_result_rows_counterexample:
  "readSimpleQuery (idle_conn\<lparr>Rd :=
      wire [Message commandCompleteMsg (str ''SELECT 1''), Message dataRowMsg [0, 0]] @
      encode (Message readyForQueryMsg [0x49])\<rparr>) =
     ((Some \<lparr>tag = str ''SELECT 1'', returned = 0\<rparr>, None), idle_conn) \<and>
   readExtQuery (idle_conn\<lparr>Rd :=
      wire [Message commandCompleteMsg (str ''SELECT 1''), Message dataRowMsg [0, 0]] @
      encode (Message readyForQueryMsg [0x49])\<rparr>) =
     ((Some \<lparr>tag = str ''SELECT 1'', returned = 0\<rparr>, None), idle_conn) \<and>
   length (filter is_DataRow
      [Message commandCompleteMsg (str ''SELECT 1''), Message dataRowMsg [0, 0]]) = 1"
proof -
  have ok: "\<forall>m\<in>set [Message commandCompleteMsg (str ''SELECT 1''), Message dataRowMsg [0, 0]].
      wf_message m \<and> simple_accepts m \<and> ext_accepts m"
    by (simp add: str_def)
  have idle: "idle_conn\<lparr>Rd := []\<rparr> = idle_conn"
    by (simp add: idle_conn_def)
  have "readSimpleQuery (idle_conn\<lparr>Rd :=
      wire [Message commandCompleteMsg (str ''SELECT 1''), Message dataRowMsg [0, 0]] @
      encode (Message readyForQueryMsg [0x49]) @ []\<rparr>) =
     ((Some \<lparr>tag = str ''SELECT 1'', returned = 0\<rparr>, None), idle_conn)"
    using ok by (subst readSimpleQuery_response) (simp_all add: msg_tags NewResult_def idle)
  moreover have "readExtQuery (idle_conn\<lparr>Rd :=
      wire [Message commandCompleteMsg (str ''SELECT 1''), Message dataRowMsg [0, 0]] @
      encode (Message readyForQueryMsg [0x49]) @ []\<rparr>) =
     ((Some \<lparr>tag = str ''SELECT 1'', returned = 0\<rparr>, None), idle_conn)"
    using ok by (subst readExtQuery_response) (simp_all add: msg_tags NewResult_def idle)
  ultimately show ?thesis by (simp add: msg_tags)
qed

section \<open>Error coalescing\<close>

text \<open>
  Claim C1 at a response with two ErrorResponse messages before ReadyForQuery: all three
  readers drain the response to its end; \<open>readSimpleQuery\<close> and \<open>readExtQuery\<close> return
  the error of the first ErrorResponse, \<open>readReadyForQuery\<close> that of the second.
\<close>

theorem readReadyForQuery_returns_last_error:
  "readReadyForQuery (idle_conn\<lparr>Rd :=
      wire [ErrorResponse [(0x4D, str ''first'')], ErrorResponse [(0x4D, str ''second'')]] @
      encode (Message readyForQueryMsg [0x49])\<rparr>) =
     ((None, Some (ServerError [0x61 \<mapsto> str ''db:5432'', 0x4D \<mapsto> str ''second''])), idle_conn) \<and>
   readSimpleQuery (idle_conn\<lparr>Rd :=
      wire [ErrorResponse [(0x4D, str ''first'')], ErrorResponse [(0x4D, str ''second'')]] @
      encode (Message readyForQueryMsg [0x49])\<rparr>) =
     ((None, Some (ServerError [0x61 \<mapsto> str ''db:5432'', 0x4D \<mapsto> str ''first''])), idle_conn) \<and>
   readExtQuery (idle_conn\<lparr>Rd :=
      wire [ErrorResponse [(0x4D, str ''first'')], ErrorResponse [(0x4D, str ''second'')]] @
      encode (Message readyForQueryMsg [0x49])\<rparr>) =
     ((None, Some (ServerError [0x61 \<mapsto> str ''db:5432'', 0x4D \<mapsto> str ''first''])), idle_conn)"
  by (simp add: readReadyForQuery_def readReadyForQuery_loop.simps
     readSimpleQuery_def readSimpleQuery_loop.simps readExtQuery_def readExtQuery_loop.simps setErr_def
     readMessageType_def ReadByte_def
     readInt32_def ReadN_def encode_msg_def encode_fields_def idle_conn_def be32_def msg_tags
     readError_def readError_loop.simps readString_def str_def wire_def)

section \<open>Column names of a RowDescription\<close>

text \<open>
  The body of a RowDescription: the 16-bit field count, then for each field its
  NUL-terminated name and 18 bytes of metadata.
\<close>

definition encode_column :: "bytes \<times> bytes \<Rightarrow> bytes" where
  "encode_column f = fst f @ [0] @ snd f"

definition encode_RowDescription :: "(bytes \<times> bytes) list \<Rightarrow> bytes" where
  "encode_RowDescription fs = be16 (word_of_nat (length fs)) @ concat (map encode_column fs)"

fun column_ok :: "bytes \<times> bytes \<Rightarrow> bool" where
  "column_ok (name, meta) = (0 \<notin> set name \<and> length meta = 18)"

lemma readRowDescription_loop_columns:
  assumes "\<forall>f\<in>set fs. column_ok f" and "k + length fs = length vis"
  shows "readRowDescription_loop (cn\<lparr>Rd := concat (map encode_column fs) @ rest\<rparr>) (vis, sp)
           (int (length vis)) (int k) =
         (((take k vis @ map fst fs, sp), None), cn\<lparr>Rd := rest\<rparr>)"
  using assms
proof (induction fs arbitrary: k vis cn)
  case Nil
  then show ?case
    by (subst readRowDescription_loop.simps) simp
next
  case (Cons f fs)
  obtain name meta where f: "f = (name, meta)" by (cases f)
  from Cons.prems f have ok: "0 \<notin> set name" "length meta = 18" "\<forall>f\<in>set fs. column_ok f"
    and k: "k < length vis" "Suc k + length fs = length (vis[k := name])"
    by simp_all
  have "readRowDescription_loop
          (cn\<lparr>Rd := concat (map encode_column (f # fs)) @ rest\<rparr>) (vis, sp)
          (int (length vis)) (int k) =
        readRowDescription_loop (cn\<lparr>Rd := concat (map encode_column fs) @ rest\<rparr>)
          (vis[k := name], sp) (int (length (vis[k := name]))) (int (Suc k))"
    using ok k(1) f
    by (subst readRowDescription_loop.simps) (simp add: encode_column_def add.commute)
  also have "\<dots> = (((take (Suc k) (vis[k := name]) @ map fst fs, sp), None), cn\<lparr>Rd := rest\<rparr>)"
    by (rule Cons.IH [OF ok(3) k(2)])
  also have "take (Suc k) (vis[k := name]) @ map fst fs = take k vis @ map fst (f # fs)"
    using k(1) f by (simp add: take_Suc_conv_app_nth)
  finally show ?case .
qed

text \<open>
  Claim C6. For every RowDescription of at most 32767 fields, whatever slice the caller
  hands in, \<open>readRowDescription\<close> returns a column list with one entry per field,
  entry \<open>i\<close> being the bytes of the \<open>i\<close>-th name; it consumes the count, and for every
  field the name, its NUL and exactly 18 bytes, and nothing of what follows; with no
  fields the list is empty.
\<close>

theorem readRowDescription_column_names:
  assumes "length fs < 2 ^ 15" and "\<forall>f\<in>set fs. column_ok f"
  shows "readRowDescription (cn\<lparr>Rd := encode_RowDescription fs @ rest\<rparr>) columns =
         (((map fst fs, drop (length fs) (fst columns @ snd columns)), None), cn\<lparr>Rd := rest\<rparr>)"
proof -
  let ?n = "length fs"
  let ?backing = "fst columns @ snd columns"
  have n: "sint (word_of_nat ?n :: 16 word) = int ?n"
    using assms(1) by (rule sint_of_nat_16)
  obtain vis where sl: "setByteSliceLen columns (int ?n) = Inr (vis, drop ?n ?backing)"
    and len: "length vis = ?n"
    by (cases "?n \<le> length ?backing") (auto simp: setByteSliceLen_def Let_def)
  have "readRowDescription (cn\<lparr>Rd := encode_RowDescription fs @ rest\<rparr>) columns =
        readRowDescription_loop (cn\<lparr>Rd := concat (map encode_column fs) @ rest\<rparr>)
          (vis, drop ?n ?backing) (int (length vis)) (int 0)"
    by (simp add: readRowDescription_def encode_RowDescription_def n sl len)
  also have "\<dots> = (((take 0 vis @ map fst fs, drop ?n ?backing), None), cn\<lparr>Rd := rest\<rparr>)"
    using assms(2) len by (intro readRowDescription_loop_columns) simp_all
  finally show ?thesis by simp
qed

text \<open>The theorem at a description of two columns, and at one of no columns.\<close>

theorem readRowDescription_column_names_witness:
  "readRowDescription (idle_conn\<lparr>Rd := encode_RowDescription
        [(str ''id'', replicate 18 0), (str ''name'', replicate 18 1)] @ [0x5A]\<rparr>) nil =
     ((([str ''id'', str ''name''], []), None), idle_conn\<lparr>Rd := [0x5A]\<rparr>) \<and>
   readRowDescription (idle_conn\<lparr>Rd := encode_RowDescription [] @ []\<rparr>) ([str ''old''], []) =
     ((([], [str ''old'']), None), idle_conn\<lparr>Rd := []\<rparr>)"
  using readRowDescription_column_names
      [where fs = "[(str ''id'', replicate 18 0), (str ''name'', replicate 18 1)]"
        and cn = idle_conn and rest = "[0x5A]" and columns = nil]
    readRowDescription_column_names
      [where fs = "[]" and cn = idle_conn and rest = "[]" and columns = "([str ''old''], [])"]
  by (simp add: str_def nil_def)

section \<open>Server errors in the prepare and COPY-OUT readers\<close>

text \<open>
  Claim C2 at the response ErrorResponse, ReadyForQuery: \<open>readParseDescribeSync\<close> and
  \<open>readCopyData\<close> return the server error as soon as the ErrorResponse is read; the
  six bytes of the ReadyForQuery message are still unread on the connection.
\<close>

theorem prepare_and_copy_out_return_before_ReadyForQuery:
  "readParseDescribeSync (idle_conn\<lparr>Rd :=
      encode (ErrorResponse [(0x43, str ''42601'')]) @
      encode (Message readyForQueryMsg [0x49])\<rparr>) =
     ((nil, Some (ServerError [0x61 \<mapsto> str ''db:5432'', 0x43 \<mapsto> str ''42601''])),
      idle_conn\<lparr>Rd := [0x5A, 0, 0, 0, 5, 0x49]\<rparr>) \<and>
   readCopyData (idle_conn\<lparr>Rd :=
      encode (ErrorResponse [(0x43, str ''42601'')]) @
      encode (Message readyForQueryMsg [0x49])\<rparr>) (\<lambda>w b. (None, w @ b)) [] =
     (((None, Some (ServerError [0x61 \<mapsto> str ''db:5432'', 0x43 \<mapsto> str ''42601''])), []),
      idle_conn\<lparr>Rd := [0x5A, 0, 0, 0, 5, 0x49]\<rparr>)"
  by (simp add: readParseDescribeSync_def readParseDescribeSync_loop.simps
      readCopyData_def readCopyData_loop.simps readMessageType_def ReadByte_def
      readInt32_def ReadN_def encode_msg_def encode_fields_def idle_conn_def be32_def msg_tags
      readError_def readError_loop.simps readString_def str_def)



section \<open>Columns of a DataRow\<close>

text \<open>
  The body of a DataRow: the 16-bit field count, then for each field its 32-bit length
  and that many bytes, or the length -1 and no bytes for NULL.
\<close>

fun encode_field :: "bytes option \<Rightarrow> bytes" where
  "encode_field None = be32 (- 1)"
| "encode_field (Some b) = be32 (word_of_nat (length b)) @ b"

definition encode_DataRow :: "bytes option list \<Rightarrow> bytes" where
  "encode_DataRow row = be16 (word_of_nat (length row)) @ concat (map encode_field row)"

text \<open>A field is well formed when its length fits the signed 32-bit field.\<close>

fun field_ok :: "bytes option \<Rightarrow> bool" where
  "field_ok None = True"
| "field_ok (Some b) = (length b < 2 ^ 31)"

text \<open>
  Handing every column of a row to the scanner, in order, with its index, its name and
  its value: the causes of the scans that failed, in order, and the scanner's last state.
\<close>

fun scan_columns ::
  "'s ColumnScanner \<Rightarrow> 's \<Rightarrow> bytes list \<Rightarrow> nat \<Rightarrow> bytes option list \<Rightarrow> string list \<times> 's" where
  "scan_columns scan st columns i [] = ([], st)"
| "scan_columns scan st columns i (f # fs) =
     (case scan st (int i) (columns ! i) f of
        (r, st_next) \<Rightarrow>
          (case scan_columns scan st_next columns (Suc i) fs of
             (causes, st_last) \<Rightarrow> ((case r of None \<Rightarrow> [] | Some c \<Rightarrow> [c]) @ causes, st_last)))"

fun first_scan_error :: "string list \<Rightarrow> error option" where
  "first_scan_error [] = None"
| "first_scan_error (c # _) = Some (ScanError c)"

text \<open>A scanner for the concrete runs: it records what it is handed and rejects NULL.\<close>

definition log_scanner :: "(int \<times> bytes \<times> bytes option) list ColumnScanner" where
  "log_scanner st i name b =
     (if b = None then Some ''null not allowed'' else None, st @ [(i, name, b)])"

lemma word_of_nat_not_minus_1: "n < 2 ^ 31 \<Longrightarrow> (word_of_nat n :: 32 word) \<noteq> - 1"
proof
  assume n: "n < 2 ^ 31" and "(word_of_nat n :: 32 word) = - 1"
  then have "sint (word_of_nat n :: 32 word) = - 1" by simp
  with sint_of_nat_32 [OF n] show False by simp
qed

lemma readDataRow_loop_step:
  assumes "field_ok f" and "k < length columns" and "int k < colNum"
    and "scan st (int k) (columns ! k) f = (r, st_next)"
  shows "readDataRow_loop scan st (cn\<lparr>Rd := encode_field f @ more_bytes\<rparr>) columns colNum (int k) retErr =
         readDataRow_loop scan st_next (cn\<lparr>Rd := more_bytes\<rparr>) columns colNum (int (Suc k))
           (case r of None \<Rightarrow> retErr | Some c \<Rightarrow> setErr retErr (ScanError c))"
proof (cases f)
  case None
  with assms show ?thesis
    by (subst readDataRow_loop.simps) (simp add: add.commute split: option.splits)
next
  case (Some b)
  with assms(1) have b: "length b < 2 ^ 31" by simp
  from Some assms b show ?thesis
    by (subst readDataRow_loop.simps)
      (simp add: add.commute word_of_nat_not_minus_1 sint_of_nat_32 split: option.splits)
qed

lemma readDataRow_loop_panic:
  assumes "field_ok f" and "length columns \<le> k" and "int k < colNum"
  shows "fst (fst (readDataRow_loop scan st (cn\<lparr>Rd := encode_field f @ more_bytes\<rparr>) columns colNum
           (int k) retErr)) = Some (Panic ''index out of range'')"
proof (cases f)
  case None
  with assms show ?thesis
    by (subst readDataRow_loop.simps) simp
next
  case (Some b)
  with assms(1) have b: "length b < 2 ^ 31" by simp
  from Some assms b show ?thesis
    by (subst readDataRow_loop.simps) (simp add: word_of_nat_not_minus_1 sint_of_nat_32)
qed

lemma readDataRow_loop_fields:
  assumes "\<forall>f\<in>set fs. field_ok f" and "k + length fs \<le> length columns"
  shows "readDataRow_loop scan st (cn\<lparr>Rd := concat (map encode_field fs) @ rest\<rparr>) columns
           (int (k + length fs)) (int k) retErr =
         ((case retErr of
             Some e \<Rightarrow> Some e
           | None \<Rightarrow> first_scan_error (fst (scan_columns scan st columns k fs)),
           snd (scan_columns scan st columns k fs)), cn\<lparr>Rd := rest\<rparr>)"
  using assms
proof (induction fs arbitrary: k st retErr cn)
  case Nil
  show ?case
    by (subst readDataRow_loop.simps) (simp split: option.splits)
next
  case (Cons f fs)
  obtain r st_next where sc: "scan st (int k) (columns ! k) f = (r, st_next)"
    by (cases "scan st (int k) (columns ! k) f")
  obtain causes st_last where rec: "scan_columns scan st_next columns (Suc k) fs = (causes, st_last)"
    by (cases "scan_columns scan st_next columns (Suc k) fs")
  from Cons.prems have ok: "field_ok f" "\<forall>f\<in>set fs. field_ok f"
    and k: "k < length columns" "Suc k + length fs \<le> length columns"
    by simp_all
  have n: "int (k + length (f # fs)) = int (Suc k + length fs)" by simp
  have "readDataRow_loop scan st (cn\<lparr>Rd := concat (map encode_field (f # fs)) @ rest\<rparr>)
          columns (int (k + length (f # fs))) (int k) retErr =
        readDataRow_loop scan st_next (cn\<lparr>Rd := concat (map encode_field fs) @ rest\<rparr>) columns
          (int (Suc k + length fs)) (int (Suc k))
          (case r of None \<Rightarrow> retErr | Some c \<Rightarrow> setErr retErr (ScanError c))"
    unfolding n using readDataRow_loop_step [where f = f and k = k and columns = columns
        and colNum = "int (Suc k + length fs)" and scan = scan and st = st and r = r and st_next = st_next
        and cn = cn and more_bytes = "concat (map encode_field fs) @ rest" and retErr = retErr]
      ok(1) k(1) sc
    by simp
  also note Cons.IH [OF ok(2) k(2)]
  finally show ?case
    using sc rec by (simp add: setErr_def split: option.splits)
qed

lemma readDataRow_loop_short_columns:
  assumes "\<forall>f\<in>set fs. field_ok f" and "k \<le> length columns" and "length columns < k + length fs"
  shows "fst (fst (readDataRow_loop scan st (cn\<lparr>Rd := concat (map encode_field fs) @ rest\<rparr>)
           columns (int (k + length fs)) (int k) retErr)) = Some (Panic ''index out of range'')"
  using assms
proof (induction fs arbitrary: k st retErr cn)
  case Nil
  then show ?case by simp
next
  case (Cons f fs)
  from Cons.prems have ok: "field_ok f" "\<forall>f\<in>set fs. field_ok f" by simp_all
  have n: "int (k + length (f # fs)) = int (Suc k + length fs)" by simp
  show ?case
  proof (cases "k < length columns")
    case False
    with Cons.prems have "length columns \<le> k" by simp
    from readDataRow_loop_panic [where f = f and k = k and columns = columns
        and colNum = "int (k + length (f # fs))" and scan = scan and st = st and cn = cn
        and more_bytes = "concat (map encode_field fs) @ rest" and retErr = retErr] ok(1) this
    show ?thesis by simp
  next
    case True
    obtain r st_next where sc: "scan st (int k) (columns ! k) f = (r, st_next)"
      by (cases "scan st (int k) (columns ! k) f")
    from True Cons.prems have k: "Suc k \<le> length columns" "length columns < Suc k + length fs"
      by simp_all
    have "readDataRow_loop scan st (cn\<lparr>Rd := concat (map encode_field (f # fs)) @ rest\<rparr>)
            columns (int (k + length (f # fs))) (int k) retErr =
          readDataRow_loop scan st_next (cn\<lparr>Rd := concat (map encode_field fs) @ rest\<rparr>) columns
            (int (Suc k + length fs)) (int (Suc k))
            (case r of None \<Rightarrow> retErr | Some c \<Rightarrow> setErr retErr (ScanError c))"
      unfolding n using readDataRow_loop_step [where f = f and k = k and columns = columns
          and colNum = "int (Suc k + length fs)" and scan = scan and st = st and r = r
          and st_next = st_next and cn = cn and more_bytes = "concat (map encode_field fs) @ rest"
          and retErr = retErr] ok(1) True sc
      by simp
    with Cons.IH [OF ok(2) k] show ?thesis by simp
  qed
qed

lemma first_scan_error_not_Panic: "first_scan_error cs \<noteq> Some (Panic s)"
  by (cases cs) simp_all

lemma readDataRow_within_columns:
  assumes "length row < 2 ^ 15" and "\<forall>f\<in>set row. field_ok f"
    and "length row \<le> length columns"
  shows "readDataRow (cn\<lparr>Rd := encode_DataRow row @ rest\<rparr>) scan st columns =
         ((first_scan_error (fst (scan_columns scan st columns 0 row)),
           snd (scan_columns scan st columns 0 row)), cn\<lparr>Rd := rest\<rparr>)"
  using readDataRow_loop_fields [where k = 0 and fs = row and columns = columns and scan = scan
      and st = st and cn = cn and rest = rest and retErr = None] assms
  by (simp add: readDataRow_def encode_DataRow_def sint_of_nat_16)

text \<open>
  Claim C5. For every DataRow of at most 32767 fields and a column list at least as long,
  \<open>readDataRow\<close> consumes the count and, for each field, the length and exactly that
  many bytes (none for the length -1) and nothing of what follows; the scanner is handed
  every column in order, index, name and value, with \<open>None\<close> for a NULL, also after a scan
  has failed; and the error returned is that of the first scan that failed.
\<close>

theorem readDataRow_scans_every_column:
  assumes "length row < 2 ^ 15" and "\<forall>f\<in>set row. field_ok f"
    and "length row \<le> length columns"
  shows "readDataRow (cn\<lparr>Rd := encode_DataRow row @ rest\<rparr>) scan st columns =
         ((first_scan_error (fst (scan_columns scan st columns 0 row)),
           snd (scan_columns scan st columns 0 row)), cn\<lparr>Rd := rest\<rparr>)"
  using assms by (rule readDataRow_within_columns)

text \<open>
  The theorem at a row of four fields, NULL, two bytes, NULL and the empty value: both
  NULL columns fail to scan, all four columns reach the scanner, the first error returns.
\<close>

theorem readDataRow_scans_every_column_witness:
  "readDataRow (idle_conn\<lparr>Rd := encode_DataRow [None, Some [7, 8], None, Some []] @ [0x5A]\<rparr>)
      log_scanner [] [str ''a'', str ''b'', str ''c'', str ''d''] =
     ((Some (ScanError ''null not allowed''),
       [(0, str ''a'', None), (1, str ''b'', Some [7, 8]), (2, str ''c'', None),
        (3, str ''d'', Some [])]),
      idle_conn\<lparr>Rd := [0x5A]\<rparr>)"
  using readDataRow_scans_every_column
      [where row = "[None, Some [7, 8], None, Some []]" and cn = idle_conn and rest = "[0x5A]"
        and scan = log_scanner and st = "[]" and columns = "[str ''a'', str ''b'', str ''c'', str ''d'']"]
  by (simp add: log_scanner_def)

text \<open>
  Claim C9. \<open>readDataRow\<close> indexes \<open>columns\<close> without a bounds check: on a well-formed
  DataRow it ends in the index-out-of-range panic exactly when the row carries more
  fields than \<open>columns\<close> has entries.
\<close>

theorem readDataRow_panics_iff_more_fields_than_columns:
  assumes "length row < 2 ^ 15" and "\<forall>f\<in>set row. field_ok f"
  shows "fst (fst (readDataRow (cn\<lparr>Rd := encode_DataRow row @ rest\<rparr>) scan st columns)) =
           Some (Panic ''index out of range'') \<longleftrightarrow>
         length columns < length row"
proof (cases "length columns < length row")
  case True
  from readDataRow_loop_short_columns [where k = 0 and fs = row and columns = columns
      and scan = scan and st = st and cn = cn and rest = rest and retErr = None] assms True
  show ?thesis
    by (simp add: readDataRow_def encode_DataRow_def sint_of_nat_16)
next
  case False
  then have "length row \<le> length columns" by simp
  from readDataRow_within_columns [OF assms this, where cn = cn and rest = rest and scan = scan
      and st = st] False
  show ?thesis by (simp add: first_scan_error_not_Panic)
qed

text \<open>The theorem at a row of two fields, with one column name and with two.\<close>

theorem readDataRow_panics_witness:
  "fst (fst (readDataRow (idle_conn\<lparr>Rd := encode_DataRow [Some [1], Some [2]] @ []\<rparr>)
      log_scanner [] [str ''a''])) = Some (Panic ''index out of range'') \<and>
   fst (fst (readDataRow (idle_conn\<lparr>Rd := encode_DataRow [Some [1], Some [2]] @ []\<rparr>)
      log_scanner [] [str ''a'', str ''b''])) \<noteq> Some (Panic ''index out of range'')"
  using readDataRow_panics_iff_more_fields_than_columns
      [where row = "[Some [1], Some [2]]" and cn = idle_conn and rest = "[]"
        and scan = log_scanner and st = "[]" and columns = "[str ''a'']"]
    readDataRow_panics_iff_more_fields_than_columns
      [where row = "[Some [1], Some [2]]" and cn = idle_conn and rest = "[]"
        and scan = log_scanner and st = "[]" and columns = "[str ''a'', str ''b'']"]
  by (simp add: log_scanner_def)



section \<open>Request writers\<close>


definition writePasswordMsg :: "WriteBuffer \<Rightarrow> bytes \<Rightarrow> WriteBuffer" where
  "writePasswordMsg buf password =
     FinishMessage (WriteString password (StartMessage passwordMessageMsg buf))"

definition writeSyncMsg :: "WriteBuffer \<Rightarrow> WriteBuffer" where
  "writeSyncMsg buf = FinishMessage (StartMessage syncMsg buf)"

text \<open>
  Modelled from the spec: \<open>types.Append\<close> is not part of the source file. The value
  codec encodes one parameter: \<open>codec p\<close> is the encoding that \<open>types.Append\<close> appends to
  the buffer, or \<open>None\<close> where it returns nil for SQL NULL.
\<close>

type_synonym 'p ValueCodec = "'p \<Rightarrow> bytes option"

fun writeParams :: "'p ValueCodec \<Rightarrow> 'p list \<Rightarrow> WriteBuffer \<Rightarrow> WriteBuffer" where
  "writeParams codec [] buf = buf"
| "writeParams codec (param # params) buf =
     writeParams codec params
       (let buf1 = StartParam buf in
        case codec param of
          Some enc \<Rightarrow> FinishParam (buf1\<lparr>Bytes := Bytes buf1 @ enc\<rparr>)
        | None \<Rightarrow> FinishNullParam buf1)"

text \<open>
  \<open>writeBindExecuteMsg\<close>: \<open>int16(len(params))\<close> keeps the low 16 bits of the length. The
  function has no failing path and returns \<open>nil\<close>.
\<close>

definition writeBindExecuteMsg ::
  "'p ValueCodec \<Rightarrow> WriteBuffer \<Rightarrow> bytes \<Rightarrow> 'p list \<Rightarrow> error option \<times> WriteBuffer" where
  "writeBindExecuteMsg codec buf name params =
     (let buf1 = StartMessage bindMsg buf;
          buf2 = WriteString [] buf1;
          buf3 = WriteString name buf2;
          buf4 = WriteInt16 0 buf3;
          buf5 = WriteInt16 (word_of_nat (length params)) buf4;
          buf6 = writeParams codec params buf5;
          buf7 = WriteInt16 0 buf6;
          buf8 = FinishMessage buf7;
          buf9 = StartMessage executeMsg buf8;
          buf10 = WriteString [] buf9;
          buf11 = WriteInt32 0 buf10;
          buf12 = FinishMessage buf11
      in (None, writeSyncMsg buf12))"

section \<open>Transport negotiation and authentication\<close>


text \<open>
  What the engine takes from outside the repository: \<open>md5_Sum\<close> is the digest of
  \<open>crypto/md5\<close>; the other three are the SCRAM negotiator of \<open>mellium.im/sasl\<close>, with
  \<open>'n\<close> the negotiator's state: \<open>sasl_NewClient mech user password\<close>, \<open>sasl_Step\<close> on a
  challenge (\<open>None\<close> for nil) giving the response or an error, and whether the state is
  \<open>sasl.ValidServerResponse\<close>.
\<close>

datatype Mechanism = ZeroMechanism | ScramSha256 | ScramSha256Plus

fun Name :: "Mechanism \<Rightarrow> bytes" where
  "Name ZeroMechanism = []"
| "Name ScramSha256 = str ''SCRAM-SHA-256''"
| "Name ScramSha256Plus = str ''SCRAM-SHA-256-PLUS''"

record 'n Externals =
  md5_Sum :: "bytes \<Rightarrow> bytes"
  sasl_NewClient :: "Mechanism \<Rightarrow> bytes \<Rightarrow> bytes \<Rightarrow> 'n"
  sasl_Step :: "'n \<Rightarrow> bytes option \<Rightarrow> (error + bytes) \<times> 'n"
  sasl_ValidServerResponse :: "'n \<Rightarrow> bool"

text \<open>\<open>hex.EncodeToString\<close> and \<open>md5s\<close>.\<close>

definition hextable :: bytes where
  "hextable = str ''0123456789abcdef''"

fun EncodeToString :: "bytes \<Rightarrow> bytes" where
  "EncodeToString [] = []"
| "EncodeToString (v # src) =
     hextable ! unat (drop_bit 4 v) # hextable ! unat (v AND 0x0f) # EncodeToString src"

definition md5s :: "('n, 'x) Externals_scheme \<Rightarrow> bytes \<Rightarrow> bytes" where
  "md5s ext s = EncodeToString (md5_Sum ext s)"

text \<open>
  The response to a password message. \<open>authenticate\<close> has this \<open>switch\<close> twice, word
  for word, after the cleartext and after the MD5 password.
\<close>

definition readPasswordResponse :: "Conn \<Rightarrow> error option \<times> Conn" where
  "readPasswordResponse cn =
     (case readMessageType cn of
        (Inl err, cn1) \<Rightarrow> (Some err, cn1)
      | (Inr (c, _), cn1) \<Rightarrow>
          if c = authenticationOKMsg then
            (case readInt32 cn1 of
               (Inl err, cn2) \<Rightarrow> (Some err, cn2)
             | (Inr num, cn2) \<Rightarrow>
                 if num \<noteq> 0 then (Some (UnexpectedAuthCode num), cn2) else (None, cn2))
          else if c = errorResponseMsg then
            (case readError cn1 of
               (Inl err, cn2) \<Rightarrow> (Some err, cn2)
             | (Inr e, cn2) \<Rightarrow> (Some e, cn2))
          else (Some (UnknownPasswordResponse c), cn1))"

definition readAuthOK :: "Conn \<Rightarrow> error option \<times> Conn" where
  "readAuthOK cn =
     (case readMessageType cn of
        (Inl err, cn1) \<Rightarrow> (Some err, cn1)
      | (Inr (c, _), cn1) \<Rightarrow>
          if c = authenticationOKMsg then
            (case readInt32 cn1 of
               (Inl err, cn2) \<Rightarrow> (Some err, cn2)
             | (Inr c0, cn2) \<Rightarrow>
                 if c0 \<noteq> 0 then (Some (UnexpectedAuthCode c0), cn2) else (None, cn2))
          else if c = errorResponseMsg then
            (case readError cn1 of
               (Inl err, cn2) \<Rightarrow> (Some err, cn2)
             | (Inr e, cn2) \<Rightarrow> (Some e, cn2))
          else (Some (UnknownPasswordResponse c), cn1))"

definition readAuthSASLFinal ::
  "('n, 'x) Externals_scheme \<Rightarrow> Conn \<Rightarrow> 'n \<Rightarrow> error option \<times> Conn" where
  "readAuthSASLFinal ext cn client =
     (case readMessageType cn of
        (Inl err, cn1) \<Rightarrow> (Some err, cn1)
      | (Inr (c, n), cn1) \<Rightarrow>
          if c = authenticationSASLFinalMsg then
            (case readInt32 cn1 of
               (Inl err, cn2) \<Rightarrow> (Some err, cn2)
             | (Inr c12, cn2) \<Rightarrow>
                 if c12 \<noteq> 12 then (Some (SaslUnexpected c), cn2)
                 else
                   (case ReadN (n - 4) cn2 of
                      (Inl err, cn3) \<Rightarrow> (Some err, cn3)
                    | (Inr b, cn3) \<Rightarrow>
                        (case sasl_Step ext client (Some b) of
                           (Inl err, _) \<Rightarrow> (Some err, cn3)
                         | (Inr _, client1) \<Rightarrow>
                             if \<not> sasl_ValidServerResponse ext client1
                             then (Some SaslBadState, cn3)
                             else readAuthOK cn3)))
          else if c = errorResponseMsg then
            (case readError cn1 of
               (Inl err, cn2) \<Rightarrow> (Some err, cn2)
             | (Inr e, cn2) \<Rightarrow> (Some e, cn2))
          else (Some (SaslUnexpected c), cn1))"

lemma readString_shorter:
  "readString cn = (Inr s, cn1) \<Longrightarrow> length (Rd cn1) < length (Rd cn)"
proof -
  assume a: "readString cn = (Inr s, cn1)"
  then have z: "0 \<in> set (Rd cn)" and cn1: "Rd cn1 = tl (dropWhile (\<lambda>c. c \<noteq> 0) (Rd cn))"
    by (auto simp: readString_def split: if_splits)
  from z have "dropWhile (\<lambda>c. c \<noteq> 0) (Rd cn) \<noteq> []" by simp
  then have "length (tl (dropWhile (\<lambda>c. c \<noteq> 0) (Rd cn))) <
             length (dropWhile (\<lambda>c. c \<noteq> 0) (Rd cn))"
    by (cases "dropWhile (\<lambda>c. c \<noteq> 0) (Rd cn)") simp_all
  also have "\<dots> \<le> length (Rd cn)" by (rule length_dropWhile_le)
  finally show ?thesis using cn1 by simp
qed

text \<open>
  The mechanism loop of the SASL branch, with the local variable \<open>saslMech\<close> as argument:
  the empty name ends the list, SCRAM-SHA-256 is taken, SCRAM-SHA-256-PLUS is skipped,
  any other name ends the authentication with an error.
\<close>

function readSaslMechs :: "Conn \<Rightarrow> Mechanism \<Rightarrow> (error + Mechanism) \<times> Conn" where
  "readSaslMechs cn saslMech =
     (case readString cn of
        (Inl err, cn1) \<Rightarrow> (Inl err, cn1)
      | (Inr s, cn1) \<Rightarrow>
          if s = [] then (Inr saslMech, cn1)
          else if s = Name ScramSha256 then readSaslMechs cn1 ScramSha256
          else if s = Name ScramSha256Plus then readSaslMechs cn1 saslMech
          else (Inl (UnsupportedSaslMechanism s), cn1))"
  by pat_completeness auto
termination
  by (relation "measure (\<lambda>(cn, _). length (Rd cn))")
    (auto dest: readString_shorter [OF sym])

declare readSaslMechs.simps [simp del]

text \<open>
  The SASL branch after the mechanism loop. \<open>WriteBuffer.Write\<close> never fails, so the two
  error checks after \<open>cn.Wr.Write(resp)\<close> have no branch here.
\<close>

definition authenticateSASL ::
  "('n, 'x) Externals_scheme \<Rightarrow> Conn \<Rightarrow> bytes \<Rightarrow> bytes \<Rightarrow> error option \<times> Conn" where
  "authenticateSASL ext cn user password =
     (case readSaslMechs cn ZeroMechanism of
        (Inl err, cn1) \<Rightarrow> (Some err, cn1)
      | (Inr saslMech, cn1) \<Rightarrow>
          (case sasl_Step ext (sasl_NewClient ext saslMech user password) None of
             (Inl err, _) \<Rightarrow> (Some err, cn1)
           | (Inr resp, client) \<Rightarrow>
               (case FlushWriter
                       (cn1\<lparr>Wr := FinishMessage (Write resp
                          (WriteInt32 (word_of_nat (length resp))
                            (WriteString (Name saslMech)
                              (StartMessage saslInitialResponseMsg (Wr cn1)))))\<rparr>) of
                  (Some err, cn2) \<Rightarrow> (Some err, cn2)
                | (None, cn2) \<Rightarrow>
                    (case readMessageType cn2 of
                       (Inl err, cn3) \<Rightarrow> (Some err, cn3)
                     | (Inr (typ, n), cn3) \<Rightarrow>
                         if typ = authenticationSASLContinueMsg then
                           (case readInt32 cn3 of
                              (Inl err, cn4) \<Rightarrow> (Some err, cn4)
                            | (Inr c11, cn4) \<Rightarrow>
                                if c11 \<noteq> 11 then (Some (SaslUnexpected typ), cn4)
                                else
                                  (case ReadN (n - 4) cn4 of
                                     (Inl err, cn5) \<Rightarrow> (Some err, cn5)
                                   | (Inr b, cn5) \<Rightarrow>
                                       (case sasl_Step ext client (Some b) of
                                          (Inl err, _) \<Rightarrow> (Some err, cn5)
                                        | (Inr resp1, client1) \<Rightarrow>
                                            (case FlushWriter
                                                    (cn5\<lparr>Wr := FinishMessage (Write resp1
                                                       (StartMessage saslResponseMsg (Wr cn5)))\<rparr>) of
                                               (Some err, cn6) \<Rightarrow> (Some err, cn6)
                                             | (None, cn6) \<Rightarrow> readAuthSASLFinal ext cn6 client1))))
                         else if typ = errorResponseMsg then
                           (case readError cn3 of
                              (Inl err, cn4) \<Rightarrow> (Some err, cn4)
                            | (Inr e, cn4) \<Rightarrow> (Some e, cn4))
                         else (Some (SaslUnexpected typ), cn3)))))"

definition authenticate ::
  "('n, 'x) Externals_scheme \<Rightarrow> Conn \<Rightarrow> bytes \<Rightarrow> bytes \<Rightarrow> error option \<times> Conn" where
  "authenticate ext cn user password =
     (case readInt32 cn of
        (Inl err, cn1) \<Rightarrow> (Some err, cn1)
      | (Inr num, cn1) \<Rightarrow>
          if num = authenticationOK then (None, cn1)
          else if num = authenticationCleartextPassword then
            (case FlushWriter (cn1\<lparr>Wr := writePasswordMsg (Wr cn1) password\<rparr>) of
               (Some err, cn2) \<Rightarrow> (Some err, cn2)
             | (None, cn2) \<Rightarrow> readPasswordResponse cn2)
          else if num = authenticationMD5Password then
            (case ReadN 4 cn1 of
               (Inl err, cn2) \<Rightarrow> (Some err, cn2)
             | (Inr b, cn2) \<Rightarrow>
                 (let secret = str ''md5'' @ md5s ext (md5s ext (password @ user) @ b) in
                  case FlushWriter (cn2\<lparr>Wr := writePasswordMsg (Wr cn2) secret\<rparr>) of
                    (Some err, cn3) \<Rightarrow> (Some err, cn3)
                  | (None, cn3) \<Rightarrow> readPasswordResponse cn3))
          else if num = authenticationSASL then authenticateSASL ext cn1 user password
          else (Some (UnknownAuthCode num), cn1))"


section \<open>The SSLRequest exchange\<close>






section \<open>The parameter count of a Bind message\<close>

text \<open>
  The 16-bit parameter count of the Bind message that starts at offset \<open>n\<close> of a buffer
  and names the statement \<open>name\<close>: it follows the tag, the length, the empty portal name,
  the statement name and the 16-bit count of parameter formats.
\<close>

definition bindParamCount :: "bytes \<Rightarrow> nat \<Rightarrow> bytes \<Rightarrow> 16 word" where
  "bindParamCount bs n name = Uint16 (take 2 (drop (n + length name + 9) bs))"

lemma length_PutUint32 [simp]:
  "off + 4 \<le> length bs \<Longrightarrow> length (PutUint32 bs off w) = length bs"
  by (simp add: PutUint32_def)

lemma take_PutUint32 [simp]:
  "k \<le> off \<Longrightarrow> off + 4 \<le> length bs \<Longrightarrow> take k (PutUint32 bs off w) = take k bs"
  by (simp add: PutUint32_def min_def)

lemma drop_PutUint32 [simp]:
  "off + 4 \<le> k \<Longrightarrow> off + 4 \<le> length bs \<Longrightarrow> drop k (PutUint32 bs off w) = drop k bs"
  by (simp add: PutUint32_def)

lemma writeParams_keeps:
  "k \<le> length (Bytes buf) \<Longrightarrow>
   take k (Bytes (writeParams codec ps buf)) = take k (Bytes buf) \<and>
   length (Bytes buf) \<le> length (Bytes (writeParams codec ps buf)) \<and>
   msgStart (writeParams codec ps buf) = msgStart buf"
proof (induction ps arbitrary: buf)
  case Nil
  show ?case by simp
next
  case (Cons p ps)
  let ?buf = "let buf1 = StartParam buf in
        case codec p of
          Some enc \<Rightarrow> FinishParam (buf1\<lparr>Bytes := Bytes buf1 @ enc\<rparr>)
        | None \<Rightarrow> FinishNullParam buf1"
  have step: "take k (Bytes ?buf) = take k (Bytes buf)"
    "length (Bytes buf) \<le> length (Bytes ?buf)" "msgStart ?buf = msgStart buf"
    using Cons.prems
    by (simp_all add: Let_def StartParam_def FinishParam_def FinishNullParam_def
        split: option.splits)
  from step(2) Cons.prems have "k \<le> length (Bytes ?buf)" by simp
  from Cons.IH [OF this] step show ?case by simp
qed

lemma be32_minus_1: "be32 (- 1) = [255, 255, 255, 255]"
proof -
  have "(- 1 :: 32 word) = 4294967295" by simp
  then have "be32 (- 1) = be32 4294967295" by (simp only:)
  also have "\<dots> = [255, 255, 255, 255]" by (simp add: be32_def)
  finally show ?thesis .
qed

lemma take_drop_prefix:
  "take L xs = ys \<Longrightarrow> a + m \<le> L \<Longrightarrow> take m (drop a xs) = take m (drop a ys)"
  by (auto simp: drop_take min_def)

lemma Bytes_bind_count:
  "take 2 (drop (length (Bytes buf) + length name + 9)
     (Bytes (snd (writeBindExecuteMsg codec buf name params)))) =
   be16 (word_of_nat (length params))"
proof -
  let ?n = "length (Bytes buf)"
  let ?a = "?n + length name + 9"
  let ?K = "?n + length name + 11"
  define front where "front = Bytes buf @ [bindMsg, 0, 0, 0, 0] @ [0] @ name @ [0] @ [0, 0]"
  define buf5 where "buf5 = WriteInt16 (word_of_nat (length params))
     (WriteInt16 0 (WriteString name (WriteString [] (StartMessage bindMsg buf))))"
  define buf6 where "buf6 = writeParams codec params buf5"
  define buf8 where "buf8 = FinishMessage (WriteInt16 0 buf6)"
  define final where "final = writeSyncMsg (FinishMessage (WriteInt32 0 (WriteString []
     (StartMessage executeMsg buf8))))"
  have lf: "length front = ?a" by (simp add: front_def)
  have b5: "Bytes buf5 = front @ be16 (word_of_nat (length params))"
    and m5: "msgStart buf5 = ?n + 1"
    by (simp_all add: buf5_def front_def WriteInt16_def WriteString_def StartMessage_def msg_tags
        be16_def)
  then have l5: "length (Bytes buf5) = ?K" by (simp add: lf)
  from writeParams_keeps [of ?K buf5 codec params] l5
  have t6: "take ?K (Bytes buf6) = Bytes buf5" and l6: "?K \<le> length (Bytes buf6)"
    and m6: "msgStart buf6 = ?n + 1"
    by (simp_all add: buf6_def m5)
  have d5: "take 2 (drop ?a (Bytes buf5)) = be16 (word_of_nat (length params))"
    unfolding b5 using lf by simp
  have d6: "take 2 (drop ?a (Bytes buf6)) = take 2 (drop ?a (Bytes buf5))"
    by (rule take_drop_prefix [OF t6]) simp
  have "drop ?a (Bytes buf8) = drop ?a (Bytes buf6 @ [0, 0])"
    using l6 by (simp add: buf8_def FinishMessage_def WriteInt16_def m6 be16_def)
  then have d8: "take 2 (drop ?a (Bytes buf8)) = take 2 (drop ?a (Bytes buf6))"
    using l6 by simp
  have l8: "?K \<le> length (Bytes buf8)"
    using l6 by (simp add: buf8_def FinishMessage_def WriteInt16_def m6 be16_def)
  have fin: "snd (writeBindExecuteMsg codec buf name params) = final"
    by (simp add: writeBindExecuteMsg_def Let_def final_def buf8_def buf6_def buf5_def)
  have "take (length (Bytes buf8)) (Bytes final) = Bytes buf8"
    by (simp add: final_def writeSyncMsg_def FinishMessage_def WriteInt32_def WriteString_def
        StartMessage_def msg_tags)
  from take_drop_prefix [OF this, of ?a 2] l8
  have "take 2 (drop ?a (Bytes final)) = take 2 (drop ?a (Bytes buf8))" by simp
  with d8 d6 d5 fin show ?thesis by simp
qed

text \<open>
  Claim C10. For every parameter list, \<open>writeBindExecuteMsg\<close> returns no error, and the
  parameter count it writes into the Bind message is the length of the list modulo
  \<open>2 ^ 16\<close>; for a list of at most 32767 parameters the count, read as a signed 16-bit
  integer, is the length itself.
\<close>

theorem writeBindExecuteMsg_parameter_count:
  "fst (writeBindExecuteMsg codec buf name params) = None \<and>
   unat (bindParamCount (Bytes (snd (writeBindExecuteMsg codec buf name params)))
           (length (Bytes buf)) name) = length params mod 2 ^ 16 \<and>
   (length params \<le> 32767 \<longrightarrow>
      sint (bindParamCount (Bytes (snd (writeBindExecuteMsg codec buf name params)))
             (length (Bytes buf)) name) = int (length params))"
proof -
  have c: "bindParamCount (Bytes (snd (writeBindExecuteMsg codec buf name params)))
             (length (Bytes buf)) name = word_of_nat (length params)"
    by (simp add: bindParamCount_def Bytes_bind_count)
  have "unat (word_of_nat (length params) :: 16 word) = length params mod 2 ^ 16"
    by (simp add: unat_of_nat)
  moreover have "length params \<le> 32767 \<Longrightarrow>
      sint (word_of_nat (length params) :: 16 word) = int (length params)"
    by (rule sint_of_nat_16) simp
  ultimately show ?thesis
    unfolding c by (simp add: writeBindExecuteMsg_def Let_def)
qed

text \<open>A codec for the concrete runs: the parameter is its own encoding, or NULL.\<close>

definition text_codec :: "bytes option ValueCodec" where
  "text_codec p = p"

text \<open>
  The theorem at three parameters, with the bytes written, and at 65537 parameters,
  where the count on the wire is 1.
\<close>

theorem writeBindExecuteMsg_parameter_count_witness:
  "sint (bindParamCount (Bytes (snd (writeBindExecuteMsg text_codec
       \<lparr>Bytes = [], msgStart = 0, paramStart = 0\<rparr> (str ''s1'') [Some [0x31], None, Some []])))
       (length (Bytes \<lparr>Bytes = [], msgStart = 0, paramStart = 0\<rparr>)) (str ''s1'')) = 3 \<and>
   unat (bindParamCount (Bytes (snd (writeBindExecuteMsg text_codec
       \<lparr>Bytes = [], msgStart = 0, paramStart = 0\<rparr> (str ''s1'') (replicate 65537 None))))
       (length (Bytes \<lparr>Bytes = [], msgStart = 0, paramStart = 0\<rparr>)) (str ''s1'')) = 1 \<and>
   Bytes (snd (writeBindExecuteMsg text_codec
       \<lparr>Bytes = [], msgStart = 0, paramStart = 0\<rparr> (str ''s1'') [Some [0x31], None, Some []])) =
     [0x42, 0, 0, 0, 27, 0, 0x73, 0x31, 0, 0, 0, 0, 3,
      0, 0, 0, 1, 0x31, 255, 255, 255, 255, 0, 0, 0, 0, 0, 0,
      0x45, 0, 0, 0, 9, 0, 0, 0, 0, 0, 0x53, 0, 0, 0, 4]"
proof -
  have "Bytes (snd (writeBindExecuteMsg text_codec
       \<lparr>Bytes = [], msgStart = 0, paramStart = 0\<rparr> (str ''s1'') [Some [0x31], None, Some []])) =
     [0x42, 0, 0, 0, 27, 0, 0x73, 0x31, 0, 0, 0, 0, 3,
      0, 0, 0, 1, 0x31, 255, 255, 255, 255, 0, 0, 0, 0, 0, 0,
      0x45, 0, 0, 0, 9, 0, 0, 0, 0, 0, 0x53, 0, 0, 0, 4]"
    by (simp add: writeBindExecuteMsg_def Let_def text_codec_def str_def msg_tags
        StartMessage_def FinishMessage_def StartParam_def FinishParam_def FinishNullParam_def
        WriteString_def WriteInt16_def WriteInt32_def writeSyncMsg_def PutUint32_def
        be32_minus_1)
      (simp add: be16_def be32_def)
  with writeBindExecuteMsg_parameter_count
      [where codec = text_codec and buf = "\<lparr>Bytes = [], msgStart = 0, paramStart = 0\<rparr>"
        and name = "str ''s1''" and params = "[Some [0x31], None, Some []]"]
    writeBindExecuteMsg_parameter_count
      [where codec = text_codec and buf = "\<lparr>Bytes = [], msgStart = 0, paramStart = 0\<rparr>"
        and name = "str ''s1''" and params = "replicate 65537 None"]
  show ?thesis by simp
qed



section \<open>The MD5 password message\<close>

text \<open>
  The hexadecimal form of a digest, digit by digit: \<open>hex_md5 ext s\<close> is the lower-case
  hexadecimal text of the MD5 digest of \<open>s\<close>.
\<close>

definition hex_digit :: "nat \<Rightarrow> byte" where
  "hex_digit n = (if n < 10 then of_nat (48 + n) else of_nat (87 + n))"

definition hex_md5 :: "('n, 'x) Externals_scheme \<Rightarrow> bytes \<Rightarrow> bytes" where
  "hex_md5 ext s =
     concat (map (\<lambda>v. [hex_digit (unat v div 16), hex_digit (unat v mod 16)]) (md5_Sum ext s))"

text \<open>
  Stand-ins for the concrete runs: a digest that is the first 16 bytes of its zero-padded
  input, and a negotiator that keeps the mechanism and the user it was created with and
  answers its first step with a client-first message, or with an error when it was
  created without SCRAM-SHA-256 or without a user. The theorems hold for every digest and
  every negotiator.
\<close>

definition stub_externals :: "(Mechanism \<times> bytes) Externals" where
  "stub_externals =
     \<lparr>md5_Sum = (\<lambda>s. take 16 (s @ replicate 16 0)),
      sasl_NewClient = (\<lambda>mech user password. (mech, user)),
      sasl_Step = (\<lambda>client challenge.
        if fst client \<noteq> ScramSha256 then (Inl (SaslError ''no mechanism''), client)
        else if snd client = [] then (Inl (SaslError ''no user''), client)
        else (Inr (str ''n,,n='' @ snd client @ str '',r=nonce''), client)),
      sasl_ValidServerResponse = (\<lambda>client. False)\<rparr>"

lemma hextable_nth: "n < 16 \<Longrightarrow> hextable ! n = hex_digit n"
proof -
  have "list_all (\<lambda>n. hextable ! n = hex_digit n) [0..<16]"
    by (simp add: hextable_def str_def hex_digit_def upt_rec)
  then have "\<forall>n\<in>set [0..<16]. hextable ! n = hex_digit n"
    by (simp only: list_all_iff)
  moreover assume "n < 16"
  ultimately show ?thesis by simp
qed

lemma unat_high_nibble: "unat (drop_bit 4 (v :: byte)) = unat v div 16"
  by (simp add: unat_drop_bit_eq drop_bit_eq_div unat_div)

lemma unat_low_nibble: "unat ((v :: byte) AND 0x0f) = unat v mod 16"
proof -
  have "v AND 0x0f = take_bit 4 v"
    by (simp add: take_bit_eq_mask mask_eq_exp_minus_1)
  then show ?thesis
    by (simp add: take_bit_eq_mod unat_mod)
qed

lemma EncodeToString_hex:
  "EncodeToString src =
   concat (map (\<lambda>v. [hex_digit (unat v div 16), hex_digit (unat v mod 16)]) src)"
proof (induction src)
  case Nil
  show ?case by simp
next
  case (Cons v src)
  have "unat v < 256" using unsigned_less [of v] by simp
  then have "unat v div 16 < 16" by simp
  with Cons show ?case
    by (simp add: unat_high_nibble unat_low_nibble hextable_nth)
qed

lemma md5s_hex_md5: "md5s ext s = hex_md5 ext s"
  by (simp add: md5s_def hex_md5_def EncodeToString_hex)

lemma readError_loop_Sent: "Sent (snd (readError_loop cn m)) = Sent cn"
proof (induction cn m rule: readError_loop.induct)
  case (1 cn m)
  show ?case
  proof (cases "Rd cn")
    case Nil
    then show ?thesis
      by (subst readError_loop.simps) (simp add: ReadByte_def)
  next
    case (Cons c r)
    then have rb: "ReadByte cn = (Inr c, cn\<lparr>Rd := r\<rparr>)" by (simp add: ReadByte_def)
    show ?thesis
    proof (cases "c = 0")
      case True
      with rb show ?thesis
        by (subst readError_loop.simps) simp
    next
      case False
      obtain a cn2 where rs: "readString (cn\<lparr>Rd := r\<rparr>) = (a, cn2)"
        by (cases "readString (cn\<lparr>Rd := r\<rparr>)")
      then have s2: "Sent cn2 = Sent cn"
        by (auto simp: readString_def split: if_splits)
      show ?thesis
      proof (cases a)
        case (Inl e)
        with rb rs False s2 show ?thesis
          by (subst readError_loop.simps) simp
      next
        case (Inr s)
        from "1.IH" [OF rb [symmetric] refl False rs [symmetric] Inr]
        have "Sent (snd (readError_loop cn2 (m(c \<mapsto> s)))) = Sent cn2" .
        with rb rs False s2 Inr show ?thesis
          by (subst readError_loop.simps) simp
      qed
    qed
  qed
qed

lemma readError_Sent: "Sent (snd (readError cn)) = Sent cn"
  using readError_loop_Sent [of cn "[0x61 \<mapsto> RemoteAddr cn]"]
  by (auto simp: readError_def split: prod.splits sum.splits)

lemma readMessageType_Sent: "Sent (snd (readMessageType cn)) = Sent cn"
  by (auto simp: readMessageType_def ReadByte_def readInt32_def ReadN_def
      split: list.splits prod.splits sum.splits if_splits)

lemma readPasswordResponse_Sent: "Sent (snd (readPasswordResponse cn)) = Sent cn"
proof -
  obtain a cn1 where mt: "readMessageType cn = (a, cn1)" by (cases "readMessageType cn")
  with readMessageType_Sent [of cn] have s1: "Sent cn1 = Sent cn" by simp
  have s2: "Sent (snd (readInt32 cn1)) = Sent cn1"
    by (auto simp: readInt32_def ReadN_def split: if_splits)
  from mt s1 s2 readError_Sent [of cn1] show ?thesis
    by (auto simp: readPasswordResponse_def split: prod.splits sum.splits)
qed

text \<open>
  Claim C3. On authentication code 5 followed by a 4-byte salt, when the write succeeds,
  what \<open>authenticate\<close> sends to the server, after whatever the buffer still held, is
  exactly one PasswordMessage, tag \<open>'p'\<close> and length, whose payload is the text
  \<open>"md5"\<close> followed by \<open>hex_md5 (hex_md5 (password + user) + salt)\<close> and a NUL byte, for
  every user, password and salt, and whatever the server answers.
\<close>

theorem authenticate_md5_password_message:
  assumes "\<not> WriteFails cn" and "length salt = 4"
  shows "Sent (snd (authenticate ext
           (cn\<lparr>Rd := be32 authenticationMD5Password @ salt @ rest\<rparr>) user password)) =
         Sent cn @ Bytes (Wr cn) @
         encode_msg passwordMessageMsg
           (str ''md5'' @ hex_md5 ext (hex_md5 ext (password @ user) @ salt) @ [0])"
proof -
  let ?secret = "str ''md5'' @ hex_md5 ext (hex_md5 ext (password @ user) @ salt)"
  have nz: "passwordMessageMsg \<noteq> 0" by (simp add: passwordMessageMsg_def)
  have w: "Bytes (writePasswordMsg (Wr cn) ?secret) =
           Bytes (Wr cn) @ encode_msg passwordMessageMsg (?secret @ [0])"
    using nz
    by (simp add: writePasswordMsg_def FinishMessage_def WriteString_def StartMessage_def
        PutUint32_def encode_msg_def)
  show ?thesis
    using assms
    by (simp add: authenticate_def auth_codes md5s_hex_md5 FlushWriter_def w
        readPasswordResponse_Sent Let_def)
qed

text \<open>
  The theorem at user \<open>"u"\<close>, password \<open>"p"\<close> and the salt bytes 12 34 56 78 (hexadecimal),
  with the server answering AuthenticationOk.
\<close>

theorem authenticate_md5_password_message_witness:
  "Sent (snd (authenticate stub_externals
      (idle_conn\<lparr>Rd := be32 authenticationMD5Password @ [0x12, 0x34, 0x56, 0x78] @
         encode_msg authenticationOKMsg (be32 0)\<rparr>) (str ''u'') (str ''p''))) =
   Sent idle_conn @ Bytes (Wr idle_conn) @
   encode_msg passwordMessageMsg
     (str ''md5'' @
      hex_md5 stub_externals (hex_md5 stub_externals (str ''p'' @ str ''u'') @
        [0x12, 0x34, 0x56, 0x78]) @ [0])"
  using authenticate_md5_password_message
      [where cn = idle_conn and salt = "[0x12, 0x34, 0x56, 0x78]" and ext = stub_externals
        and rest = "encode_msg authenticationOKMsg (be32 0)" and user = "str ''u''"
        and password = "str ''p''"]
  by (simp add: idle_conn_def)


section \<open>The SASL mechanism list\<close>

text \<open>
  The mechanism list of an AuthenticationSASL message: NUL-terminated names, closed by an
  empty name. A name is well formed when it is not empty and holds no NUL; it is
  unsupported when it is neither SCRAM-SHA-256 nor SCRAM-SHA-256-PLUS.
\<close>

definition encode_mechs :: "bytes list \<Rightarrow> bytes" where
  "encode_mechs names = concat (map (\<lambda>n. n @ [0]) names) @ [0]"

definition mech_ok :: "bytes \<Rightarrow> bool" where
  "mech_ok n = (n \<noteq> [] \<and> 0 \<notin> set n)"

definition unsupported :: "bytes \<Rightarrow> bool" where
  "unsupported n = (n \<noteq> Name ScramSha256 \<and> n \<noteq> Name ScramSha256Plus)"

lemma Name_ok:
  "mech_ok (Name ScramSha256)" "mech_ok (Name ScramSha256Plus)"
  "Name ScramSha256 \<noteq> Name ScramSha256Plus"
  by (simp_all add: mech_ok_def str_def)

lemma readSaslMechs_end:
  "readSaslMechs (cn\<lparr>Rd := encode_mechs [] @ rest\<rparr>) m = (Inr m, cn\<lparr>Rd := rest\<rparr>)"
  using readString_cstr [where s = "[]" and cn = cn and r = rest]
  by (subst readSaslMechs.simps) (simp add: encode_mechs_def)

lemma encode_mechs_Cons: "encode_mechs (n # names) @ rest = n @ 0 # encode_mechs names @ rest"
  by (simp add: encode_mechs_def)

lemma readSaslMechs_step:
  assumes "mech_ok n"
  shows "readSaslMechs (cn\<lparr>Rd := encode_mechs (n # names) @ rest\<rparr>) m =
         (if n = Name ScramSha256
          then readSaslMechs (cn\<lparr>Rd := encode_mechs names @ rest\<rparr>) ScramSha256
          else if n = Name ScramSha256Plus
          then readSaslMechs (cn\<lparr>Rd := encode_mechs names @ rest\<rparr>) m
          else (Inl (UnsupportedSaslMechanism n), cn\<lparr>Rd := encode_mechs names @ rest\<rparr>))"
proof -
  from assms have n: "n \<noteq> []" "0 \<notin> set n" by (simp_all add: mech_ok_def)
  from n(2) have "readString (cn\<lparr>Rd := n @ 0 # encode_mechs names @ rest\<rparr>) =
      (Inr n, cn\<lparr>Rd := encode_mechs names @ rest\<rparr>)"
    by (rule readString_cstr)
  with n(1) show ?thesis
    unfolding encode_mechs_Cons by (subst readSaslMechs.simps) simp
qed

lemma readSaslMechs_supported:
  assumes "find unsupported names = None"
  shows "readSaslMechs (cn\<lparr>Rd := encode_mechs names @ rest\<rparr>) m =
         (Inr (if Name ScramSha256 \<in> set names then ScramSha256 else m), cn\<lparr>Rd := rest\<rparr>)"
  using assms
proof (induction names arbitrary: m)
  case Nil
  show ?case by (simp add: readSaslMechs_end)
next
  case (Cons n names)
  from Cons.prems have u: "\<not> unsupported n" and rest: "find unsupported names = None"
    by (auto split: if_splits)
  from u have n: "n = Name ScramSha256 \<or> n = Name ScramSha256Plus"
    by (auto simp: unsupported_def)
  from n have "mech_ok n" using Name_ok by auto
  from readSaslMechs_step [OF this] n Cons.IH [OF rest] Name_ok(3) show ?case
    by auto
qed

lemma readSaslMechs_unsupported:
  assumes "\<forall>n\<in>set names. mech_ok n" and "find unsupported names = Some bad"
  shows "fst (readSaslMechs (cn\<lparr>Rd := encode_mechs names @ rest\<rparr>) m) =
         Inl (UnsupportedSaslMechanism bad)"
  using assms
proof (induction names arbitrary: m)
  case Nil
  then show ?case by simp
next
  case (Cons n names)
  from Cons.prems have ok: "mech_ok n" "\<forall>n\<in>set names. mech_ok n" by simp_all
  show ?case
  proof (cases "unsupported n")
    case True
    with Cons.prems(2) have "bad = n" by simp
    with True readSaslMechs_step [OF ok(1)] show ?thesis
      by (simp add: unsupported_def)
  next
    case False
    with Cons.prems(2) have "find unsupported names = Some bad" by simp
    from Cons.IH [OF ok(2) this] False readSaslMechs_step [OF ok(1)] show ?thesis
      by (auto simp: unsupported_def)
  qed
qed

text \<open>
  Reading changes nothing that was sent, and a flush only adds to it; so whatever the
  server answers, what \<open>authenticateSASL\<close> has sent begins with its
  SASLInitialResponse.
\<close>

lemma ReadN_frame: "ReadN n cn = (r, cn1) \<Longrightarrow> Sent cn1 = Sent cn \<and> WriteFails cn1 = WriteFails cn"
  by (auto simp: ReadN_def split: if_splits)

lemma readInt32_frame: "readInt32 cn = (r, cn1) \<Longrightarrow> Sent cn1 = Sent cn \<and> WriteFails cn1 = WriteFails cn"
  by (auto simp: readInt32_def split: prod.splits sum.splits dest: ReadN_frame)

lemma readMessageType_frame: "readMessageType cn = (r, cn1) \<Longrightarrow> Sent cn1 = Sent cn"
  using readMessageType_Sent [of cn] by simp

lemma readError_frame: "readError cn = (r, cn1) \<Longrightarrow> Sent cn1 = Sent cn"
  using readError_Sent [of cn] by simp

lemma FlushWriter_grows: "FlushWriter cn = (r, cn1) \<Longrightarrow> \<exists>more_sent. Sent cn1 = Sent cn @ more_sent"
  by (auto simp: FlushWriter_def split: if_splits)

lemma readAuthOK_frame: "readAuthOK cn = (r, cn1) \<Longrightarrow> Sent cn1 = Sent cn"
  by (auto simp: readAuthOK_def split: prod.splits sum.splits if_splits
      dest!: readMessageType_frame readInt32_frame readError_frame)

lemma readAuthSASLFinal_frame: "readAuthSASLFinal ext cn client = (r, cn1) \<Longrightarrow> Sent cn1 = Sent cn"
  by (auto simp: readAuthSASLFinal_def split: prod.splits sum.splits if_splits
      dest!: readMessageType_frame readInt32_frame readError_frame ReadN_frame readAuthOK_frame)

lemma readAuthSASLFinal_Sent: "Sent (snd (readAuthSASLFinal ext cn client)) = Sent cn"
  using readAuthSASLFinal_frame [of ext cn client] by (cases "readAuthSASLFinal ext cn client") simp

lemma Bytes_saslInitialResponse:
  "Bytes (FinishMessage (Write resp (WriteInt32 len (WriteString name
      (StartMessage saslInitialResponseMsg buf))))) =
   Bytes buf @ encode_msg saslInitialResponseMsg (name @ [0] @ be32 len @ resp)"
proof -
  have nz: "saslInitialResponseMsg \<noteq> 0" by (simp add: saslInitialResponseMsg_def)
  then show ?thesis
    by (simp add: FinishMessage_def Write_def WriteInt32_def WriteString_def StartMessage_def
        PutUint32_def encode_msg_def)
qed

lemma authenticateSASL_initial_response:
  assumes "readSaslMechs cn ZeroMechanism = (Inr mech, cn1)"
    and "sasl_Step ext (sasl_NewClient ext mech user password) None = (Inr resp, client)"
    and "\<not> WriteFails cn1"
  shows "take (length (Sent cn1 @ Bytes (Wr cn1) @ encode_msg saslInitialResponseMsg
             (Name mech @ [0] @ be32 (word_of_nat (length resp)) @ resp)))
           (Sent (snd (authenticateSASL ext cn user password))) =
         Sent cn1 @ Bytes (Wr cn1) @ encode_msg saslInitialResponseMsg
             (Name mech @ [0] @ be32 (word_of_nat (length resp)) @ resp)"
  using assms
  by (auto simp: authenticateSASL_def FlushWriter_def Bytes_saslInitialResponse
        readAuthSASLFinal_Sent
      split: prod.splits sum.splits if_splits
      dest!: readMessageType_frame readInt32_frame readError_frame ReadN_frame)

text \<open>
  Claim C4, as amended. On authentication code 10 followed by a list of mechanism names:
  when some name is neither SCRAM-SHA-256 nor SCRAM-SHA-256-PLUS, \<open>authenticate\<close> fails
  with the unsupported-mechanism error for the first such name, whether or not
  SCRAM-SHA-256 is offered as well. When every name is one of the two and SCRAM-SHA-256
  is among them, wherever it stands, \<open>authenticate\<close> reads the whole list and goes on
  with SCRAM-SHA-256: the negotiator is created for SCRAM-SHA-256; if its first step
  fails, that error is returned with the list consumed; if it answers and the write
  succeeds, what is sent begins with the SASLInitialResponse that names SCRAM-SHA-256 and
  carries the length and the bytes of that answer.
\<close>

theorem authenticate_sasl_mechanism:
  assumes "\<forall>n\<in>set names. mech_ok n"
  shows "(find unsupported names = Some bad \<longrightarrow>
            fst (authenticate ext (cn\<lparr>Rd := be32 authenticationSASL @ encode_mechs names @ rest\<rparr>)
                   user password) = Some (UnsupportedSaslMechanism bad)) \<and>
         (find unsupported names = None \<and> str ''SCRAM-SHA-256'' \<in> set names \<and>
          sasl_Step ext (sasl_NewClient ext ScramSha256 user password) None = (Inl err, client) \<longrightarrow>
            authenticate ext (cn\<lparr>Rd := be32 authenticationSASL @ encode_mechs names @ rest\<rparr>)
              user password = (Some err, cn\<lparr>Rd := rest\<rparr>)) \<and>
         (find unsupported names = None \<and> str ''SCRAM-SHA-256'' \<in> set names \<and>
          sasl_Step ext (sasl_NewClient ext ScramSha256 user password) None = (Inr resp, client) \<and>
          \<not> WriteFails cn \<longrightarrow>
            (\<exists>more_sent.
               Sent (snd (authenticate ext
                 (cn\<lparr>Rd := be32 authenticationSASL @ encode_mechs names @ rest\<rparr>) user password)) =
               Sent cn @ Bytes (Wr cn) @
               encode_msg saslInitialResponseMsg
                 (str ''SCRAM-SHA-256'' @ [0] @ be32 (word_of_nat (length resp)) @ resp) @
               more_sent))"
proof (intro conjI impI)
  assume bad: "find unsupported names = Some bad"
  obtain cn1 where "readSaslMechs (cn\<lparr>Rd := encode_mechs names @ rest\<rparr>) ZeroMechanism =
      (Inl (UnsupportedSaslMechanism bad), cn1)"
    using readSaslMechs_unsupported [OF assms bad, where cn = cn and rest = rest and m = ZeroMechanism]
    by (cases "readSaslMechs (cn\<lparr>Rd := encode_mechs names @ rest\<rparr>) ZeroMechanism") simp
  then show "fst (authenticate ext (cn\<lparr>Rd := be32 authenticationSASL @ encode_mechs names @ rest\<rparr>)
                   user password) = Some (UnsupportedSaslMechanism bad)"
    by (simp add: authenticate_def authenticateSASL_def auth_codes)
next
  assume a: "find unsupported names = None \<and> str ''SCRAM-SHA-256'' \<in> set names \<and>
          sasl_Step ext (sasl_NewClient ext ScramSha256 user password) None = (Inl err, client)"
  then have "readSaslMechs (cn\<lparr>Rd := encode_mechs names @ rest\<rparr>) ZeroMechanism =
      (Inr ScramSha256, cn\<lparr>Rd := rest\<rparr>)"
    by (simp add: readSaslMechs_supported)
  with a show "authenticate ext (cn\<lparr>Rd := be32 authenticationSASL @ encode_mechs names @ rest\<rparr>)
              user password = (Some err, cn\<lparr>Rd := rest\<rparr>)"
    by (simp add: authenticate_def authenticateSASL_def auth_codes)
next
  let ?start = "cn\<lparr>Rd := encode_mechs names @ rest\<rparr>"
  let ?msg = "Sent cn @ Bytes (Wr cn) @
               encode_msg saslInitialResponseMsg
                 (str ''SCRAM-SHA-256'' @ [0] @ be32 (word_of_nat (length resp)) @ resp)"
  let ?sent = "Sent (snd (authenticate ext
                 (cn\<lparr>Rd := be32 authenticationSASL @ encode_mechs names @ rest\<rparr>) user password))"
  assume a: "find unsupported names = None \<and> str ''SCRAM-SHA-256'' \<in> set names \<and>
          sasl_Step ext (sasl_NewClient ext ScramSha256 user password) None = (Inr resp, client) \<and>
          \<not> WriteFails cn"
  then have mechs: "readSaslMechs ?start ZeroMechanism = (Inr ScramSha256, cn\<lparr>Rd := rest\<rparr>)"
    by (simp add: readSaslMechs_supported)
  have auth: "authenticate ext
      (cn\<lparr>Rd := be32 authenticationSASL @ encode_mechs names @ rest\<rparr>) user password =
      authenticateSASL ext ?start user password"
    by (simp add: authenticate_def auth_codes)
  from authenticateSASL_initial_response [OF mechs, where ext = ext and user = user
      and password = password and resp = resp and client = client] a
  have "take (length ?msg) ?sent = ?msg"
    unfolding auth by simp
  then have "?sent = ?msg @ drop (length ?msg) ?sent"
    by (metis append_take_drop_id)
  then show "\<exists>more_sent. ?sent = Sent cn @ Bytes (Wr cn) @
               encode_msg saslInitialResponseMsg
                 (str ''SCRAM-SHA-256'' @ [0] @ be32 (word_of_nat (length resp)) @ resp) @
               more_sent"
    by (intro exI [of _ "drop (length ?msg) ?sent"]) simp
qed

text \<open>
  The theorem at the list SCRAM-SHA-256-PLUS, EXTERNAL, and at the list
  SCRAM-SHA-256-PLUS, SCRAM-SHA-256 with a negotiator whose first step fails and with one
  whose first step answers.
\<close>

theorem authenticate_sasl_mechanism_witness:
  "fst (authenticate stub_externals
      (idle_conn\<lparr>Rd := be32 authenticationSASL @
         encode_mechs [str ''SCRAM-SHA-256-PLUS'', str ''EXTERNAL''] @ []\<rparr>)
      (str ''u'') (str ''p'')) = Some (UnsupportedSaslMechanism (str ''EXTERNAL'')) \<and>
   authenticate stub_externals
      (idle_conn\<lparr>Rd := be32 authenticationSASL @
         encode_mechs [str ''SCRAM-SHA-256-PLUS'', str ''SCRAM-SHA-256''] @ []\<rparr>)
      [] (str ''p'') = (Some (SaslError ''no user''), idle_conn\<lparr>Rd := []\<rparr>) \<and>
   (\<exists>more_sent.
      Sent (snd (authenticate stub_externals
        (idle_conn\<lparr>Rd := be32 authenticationSASL @
           encode_mechs [str ''SCRAM-SHA-256-PLUS'', str ''SCRAM-SHA-256''] @ []\<rparr>)
        (str ''u'') (str ''p''))) =
      Sent idle_conn @ Bytes (Wr idle_conn) @
      encode_msg saslInitialResponseMsg
        (str ''SCRAM-SHA-256'' @ [0] @
         be32 (word_of_nat (length (str ''n,,n='' @ str ''u'' @ str '',r=nonce''))) @
         (str ''n,,n='' @ str ''u'' @ str '',r=nonce'')) @
      more_sent)"
proof -
  have ok1: "\<forall>n\<in>set [str ''SCRAM-SHA-256-PLUS'', str ''EXTERNAL'']. mech_ok n"
    and ok2: "\<forall>n\<in>set [str ''SCRAM-SHA-256-PLUS'', str ''SCRAM-SHA-256'']. mech_ok n"
    by (simp_all add: mech_ok_def str_def)
  have f1: "find unsupported [str ''SCRAM-SHA-256-PLUS'', str ''EXTERNAL''] = Some (str ''EXTERNAL'')"
    and f2: "find unsupported [str ''SCRAM-SHA-256-PLUS'', str ''SCRAM-SHA-256''] = None"
    by (simp_all add: unsupported_def str_def)
  have s1: "sasl_Step stub_externals (sasl_NewClient stub_externals ScramSha256 [] (str ''p'')) None =
      (Inl (SaslError ''no user''), (ScramSha256, []))"
    and s2: "sasl_Step stub_externals
        (sasl_NewClient stub_externals ScramSha256 (str ''u'') (str ''p'')) None =
      (Inr (str ''n,,n='' @ str ''u'' @ str '',r=nonce''), (ScramSha256, str ''u''))"
    by (simp_all add: stub_externals_def str_def)
  have w: "\<not> WriteFails idle_conn" by (simp add: idle_conn_def)
  from authenticate_sasl_mechanism [OF ok1, where bad = "str ''EXTERNAL''" and ext = stub_externals
      and cn = idle_conn and rest = "[]" and user = "str ''u''" and password = "str ''p''"] f1
  have c1: "fst (authenticate stub_externals
      (idle_conn\<lparr>Rd := be32 authenticationSASL @
         encode_mechs [str ''SCRAM-SHA-256-PLUS'', str ''EXTERNAL''] @ []\<rparr>)
      (str ''u'') (str ''p'')) = Some (UnsupportedSaslMechanism (str ''EXTERNAL''))"
    by blast
  from authenticate_sasl_mechanism [OF ok2, where ext = stub_externals
      and cn = idle_conn and rest = "[]" and user = "[]" and password = "str ''p''"
      and err = "SaslError ''no user''" and client = "(ScramSha256, [])"] f2 s1
  have c2: "authenticate stub_externals
      (idle_conn\<lparr>Rd := be32 authenticationSASL @
         encode_mechs [str ''SCRAM-SHA-256-PLUS'', str ''SCRAM-SHA-256''] @ []\<rparr>)
      [] (str ''p'') = (Some (SaslError ''no user''), idle_conn\<lparr>Rd := []\<rparr>)"
    by simp
  from authenticate_sasl_mechanism [OF ok2, where ext = stub_externals
      and cn = idle_conn and rest = "[]" and user = "str ''u''" and password = "str ''p''"
      and resp = "str ''n,,n='' @ str ''u'' @ str '',r=nonce''"
      and client = "(ScramSha256, str ''u'')"] f2 s2 w
  have c3: "\<exists>more_sent.
      Sent (snd (authenticate stub_externals
        (idle_conn\<lparr>Rd := be32 authenticationSASL @
           encode_mechs [str ''SCRAM-SHA-256-PLUS'', str ''SCRAM-SHA-256''] @ []\<rparr>)
        (str ''u'') (str ''p''))) =
      Sent idle_conn @ Bytes (Wr idle_conn) @
      encode_msg saslInitialResponseMsg
        (str ''SCRAM-SHA-256'' @ [0] @
         be32 (word_of_nat (length (str ''n,,n='' @ str ''u'' @ str '',r=nonce''))) @
         (str ''n,,n='' @ str ''u'' @ str '',r=nonce'')) @
      more_sent"
    by simp
  from c1 c2 c3 show ?thesis by blast
qed

text \<open>
  Claim C4 as stated fails at the list EXTERNAL, SCRAM-SHA-256: SCRAM-SHA-256 is offered,
  and \<open>authenticate\<close> fails with the unsupported-mechanism error for EXTERNAL.
\<close>

theorem authenticate_sasl_mechanism_counterexample:
  "fst (authenticate stub_externals
      (idle_conn\<lparr>Rd := be32 authenticationSASL @
         encode_mechs [str ''EXTERNAL'', str ''SCRAM-SHA-256'']\<rparr>)
      (str ''u'') (str ''p'')) = Some (UnsupportedSaslMechanism (str ''EXTERNAL'')) \<and>
   str ''SCRAM-SHA-256'' \<in> set [str ''EXTERNAL'', str ''SCRAM-SHA-256'']"
proof -
  have "fst (readSaslMechs
      (idle_conn\<lparr>Rd := encode_mechs [str ''EXTERNAL'', str ''SCRAM-SHA-256''] @ []\<rparr>)
      ZeroMechanism) = Inl (UnsupportedSaslMechanism (str ''EXTERNAL''))"
    by (rule readSaslMechs_unsupported) (simp_all add: mech_ok_def unsupported_def str_def)
  then obtain cn1 where "readSaslMechs
      (idle_conn\<lparr>Rd := encode_mechs [str ''EXTERNAL'', str ''SCRAM-SHA-256'']\<rparr>)
      ZeroMechanism = (Inl (UnsupportedSaslMechanism (str ''EXTERNAL'')), cn1)"
    by (cases "readSaslMechs
      (idle_conn\<lparr>Rd := encode_mechs [str ''EXTERNAL'', str ''SCRAM-SHA-256'']\<rparr>)
      ZeroMechanism") simp
  then show ?thesis
    by (simp add: authenticate_def authenticateSASL_def auth_codes)
qed


end
